theory Spec2Isabelle
  imports Complex_Main "HOL-Library.Product_Lexorder"
begin

text \<open>
  A shallow embedding of the two scripts of the repository: \<open>dataFiles.py\<close>, which reads
  the CSV files, converts the time columns and writes the cache files, and
  \<open>vast2022app.py\<close>, which reads the cache files, derives the aggregate tables and routes
  page requests. Calls into pandas are modelled by the library's documented behaviour
  for the arguments the scripts pass; parsing one cell as a datetime or one string as a
  float is a parameter.
\<close>

section \<open>The embedding\<close>

subsection \<open>Page router (vast2022app.py, displayPage)\<close>

text \<open>
  The four page layouts are module-level objects built once when the module is loaded.
  The record stands for these globals; the layout type is left abstract.
\<close>

record 'a layouts =
  homePage :: 'a
  participantDashboardLayout :: 'a
  socialActivityDashboardLayout :: 'a
  businessDashboard :: 'a

text \<open>
  The callback reads the globals and returns one of them. Its body holds no assignment,
  so the globals it hands on are the ones it received. Any path other than the three
  dashboard paths reaches the \<open>else\<close> branch.
\<close>

definition displayPage :: "string \<Rightarrow> 'a layouts \<Rightarrow> 'a \<times> 'a layouts" where
  "displayPage pathname g =
     (if pathname = ''/participantDashboard'' then (participantDashboardLayout g, g)
      else if pathname = ''/socialActivityDashboard'' then (socialActivityDashboardLayout g, g)
      else if pathname = ''/businessDashboard'' then (businessDashboard g, g)
      else (homePage g, g))"

subsection \<open>Age groups (vast2022app.py, ageGroup and pivotDf)\<close>

text \<open>
  \<open>pd.cut(age, bins=[20, 30, 40, 50], labels=[...])\<close> is called with the library's
  defaults \<open>right=True\<close> and \<open>include_lowest=False\<close>. With these the library looks up
  each age by \<open>bins.searchsorted(x, side='left')\<close>, the number of bin edges strictly
  below it, and an age whose index is 0 or the number of edges gets no category.
  A missing age (\<open>None\<close>) gets no category either.
\<close>

definition searchsorted_left :: "int list \<Rightarrow> int \<Rightarrow> nat" where
  "searchsorted_left bins x = length (takeWhile (\<lambda>b. b < x) bins)"

definition cut :: "int list \<Rightarrow> string list \<Rightarrow> int option \<Rightarrow> string option" where
  "cut bins labels v =
     (case v of
        None \<Rightarrow> None
      | Some x \<Rightarrow>
          (let i = searchsorted_left bins x
           in if i = 0 \<or> i = length bins then None else Some (labels ! (i - 1))))"

definition ageBins :: "int list" where
  "ageBins = [20, 30, 40, 50]"

definition ageLabels :: "string list" where
  "ageLabels = [''20-29'', ''30-39'', ''40-49'']"

definition ageGroup :: "int option \<Rightarrow> string option" where
  "ageGroup age = cut ageBins ageLabels age"

text \<open>
  A participant row, as far as the pivot reads it: the age and the education level.
  One cell of \<open>pivotDf\<close> (\<open>aggfunc='size'\<close>) is the number of participants of that age
  group and that education level; a participant without an age group is in no cell.
\<close>

type_synonym participant = "int option \<times> string"

definition pivotCell :: "participant list \<Rightarrow> string \<Rightarrow> string \<Rightarrow> nat" where
  "pivotCell ps g e = length (filter (\<lambda>(age, edu). ageGroup age = Some g \<and> edu = e) ps)"

subsection \<open>Social graph (vast2022app.py, edgesWithFrequency to nodes)\<close>

text \<open>
  A row of the SocialNetwork journal, as far as the graph reads it: the two participant
  columns. A cell read from an empty CSV field is missing (\<open>None\<close>).
  An edge is a row of \<open>edgesWithFrequency\<close>: from, to, weight.
\<close>

type_synonym event = "int option \<times> int option"
type_synonym edge = "int \<times> int \<times> nat"

definition edgeFrom :: "edge \<Rightarrow> int" where
  "edgeFrom e = fst e"

definition edgeTo :: "edge \<Rightarrow> int" where
  "edgeTo e = fst (snd e)"

definition edgeWeight :: "edge \<Rightarrow> nat" where
  "edgeWeight e = snd (snd e)"

text \<open>
  \<open>groupby(keys)\<close> with the library's defaults (\<open>sort=True\<close>, \<open>dropna=True\<close>) leaves out
  every row with a missing key and lists the groups by ascending key.
\<close>

definition groupKey :: "event \<Rightarrow> (int \<times> int) option" where
  "groupKey ev =
     (case ev of
        (Some f, Some t) \<Rightarrow> Some (f, t)
      | _ \<Rightarrow> None)"

definition groupby_size :: "('k::linorder) list \<Rightarrow> ('k \<times> nat) list" where
  "groupby_size ks = map (\<lambda>k. (k, count_list ks k)) (sort (remdups ks))"

definition edgesWithFrequency :: "event list \<Rightarrow> edge list" where
  "edgesWithFrequency sn =
     map (\<lambda>((f, t), n). (f, t, n)) (groupby_size (List.map_filter groupKey sn))"

definition groupby_sum :: "(('k::linorder) \<times> nat) list \<Rightarrow> ('k \<times> nat) list" where
  "groupby_sum kvs =
     map (\<lambda>k. (k, sum_list (map snd (filter (\<lambda>kv. fst kv = k) kvs))))
       (sort (remdups (map fst kvs)))"

definition participantInteractions :: "edge list \<Rightarrow> (int \<times> nat) list" where
  "participantInteractions es = groupby_sum (map (\<lambda>e. (edgeFrom e, edgeWeight e)) es)"

text \<open>
  \<open>nlargest(n, column)\<close> with the library's default \<open>keep='first'\<close>: the first \<open>n\<close> rows
  by descending weight, rows of equal weight in the order they have in the frame. (A
  frame of at most \<open>n\<close> rows is returned whole; only membership in the result is used
  afterwards.)
\<close>

definition nlargest :: "nat \<Rightarrow> (int \<times> nat) list \<Rightarrow> (int \<times> nat) list" where
  "nlargest n rows = take n (sort_key (\<lambda>r. - int (snd r)) rows)"

definition topParticipants :: "edge list \<Rightarrow> int list" where
  "topParticipants es = map fst (nlargest 10 (participantInteractions es))"

definition filteredEdges :: "edge list \<Rightarrow> edge list" where
  "filteredEdges es =
     (let top = topParticipants es;
          touching = filter (\<lambda>e. edgeFrom e \<in> set top \<or> edgeTo e \<in> set top) es
      in filter (\<lambda>e. 200 < edgeWeight e) touching)"

definition nodes :: "edge list \<Rightarrow> int set" where
  "nodes es = set (map edgeFrom (filteredEdges es)) \<union> set (map edgeTo (filteredEdges es))"

subsection \<open>Errors\<close>

text \<open>
  The exceptions the two scripts can raise. Neither script catches an exception, so a
  raised exception ends the stage: the model of a stage returns \<open>Inl\<close> of the error.
\<close>

datatype py_error = ValueError | KeyError | FileNotFoundError | AttributeError

subsection \<open>Building locations (vast2022app.py, combined and finalDf)\<close>

text \<open>
  \<open>str.strip(chars)\<close> removes from both ends every character that occurs in \<open>chars\<close>.
  \<open>str.split(sep)\<close> with a separator of one character splits at every occurrence of it;
  an empty string gives one empty token.
\<close>

definition py_strip :: "string \<Rightarrow> string \<Rightarrow> string" where
  "py_strip chars s =
     rev (dropWhile (\<lambda>c. c \<in> set chars) (rev (dropWhile (\<lambda>c. c \<in> set chars) s)))"

fun py_split :: "char \<Rightarrow> string \<Rightarrow> string list" where
  "py_split sep [] = [[]]"
| "py_split sep (c # cs) =
     (if c = sep then [] # py_split sep cs
      else (case py_split sep cs of
              [] \<Rightarrow> [[c]]
            | t # ts \<Rightarrow> (c # t) # ts))"

text \<open>
  \<open>.str[i]\<close> on a column of token lists gives a missing cell (\<open>None\<close>) where the list
  has no element \<open>i\<close>.
\<close>

definition str_get :: "nat \<Rightarrow> string list \<Rightarrow> string option" where
  "str_get i ts = (if i < length ts then Some (ts ! i) else None)"

text \<open>
  \<open>astype(float)\<close> converts the column cell by cell. A missing cell stays missing; a
  string that the conversion rejects raises \<open>ValueError\<close>. The conversion of one string
  (Python's \<open>float\<close>) is the parameter \<open>pyfloat\<close>.
\<close>

fun astype_float :: "(string \<Rightarrow> 'f option) \<Rightarrow> string option list \<Rightarrow> py_error + 'f option list" where
  "astype_float pyfloat [] = Inr []"
| "astype_float pyfloat (None # cs) =
     (case astype_float pyfloat cs of
        Inl e \<Rightarrow> Inl e
      | Inr vs \<Rightarrow> Inr (None # vs))"
| "astype_float pyfloat (Some s # cs) =
     (case pyfloat s of
        None \<Rightarrow> Inl ValueError
      | Some v \<Rightarrow>
          (case astype_float pyfloat cs of
             Inl e \<Rightarrow> Inl e
           | Inr vs \<Rightarrow> Inr (Some v # vs)))"

text \<open>
  A row of a location table is the \<open>location\<close> cell (missing when the CSV field was
  empty) and the building type; a row of \<open>finalDf\<close> is x, y and the building type.
\<close>

type_synonym location_row = "string option \<times> string"

type_synonym 'f building_row = "'f option \<times> 'f option \<times> string"

definition withBuildingType :: "string \<Rightarrow> string option list \<Rightarrow> location_row list" where
  "withBuildingType ty locations = map (\<lambda>l. (l, ty)) locations"

definition combined ::
  "string option list \<Rightarrow> string option list \<Rightarrow> string option list \<Rightarrow> string option list
     \<Rightarrow> location_row list" where
  "combined apartments pubs restaurants schools =
     withBuildingType ''apartment'' apartments @ withBuildingType ''pub'' pubs
       @ withBuildingType ''restaurant'' restaurants @ withBuildingType ''school'' schools"

definition location_clean :: "string option \<Rightarrow> string option" where
  "location_clean l = map_option (py_strip ''POINT ()'') l"

definition coordinate :: "nat \<Rightarrow> string option \<Rightarrow> string option" where
  "coordinate i l =
     (case location_clean l of
        None \<Rightarrow> None
      | Some s \<Rightarrow> str_get i (py_split CHR '' '' s))"

text \<open>
  Line 71 reaches the strings through the \<open>.str\<close> accessor, which raises
  \<open>AttributeError\<close> on a column that holds no string at all: a combined table that has
  rows, every one with a missing location. Then the \<open>x\<close> column is converted, and the
  \<open>y\<close> column after it.
\<close>

definition finalDf :: "(string \<Rightarrow> 'f option) \<Rightarrow> location_row list \<Rightarrow> py_error + 'f building_row list" where
  "finalDf pyfloat comb =
     (if comb \<noteq> [] \<and> list_all (\<lambda>r. fst r = None) comb then Inl AttributeError
      else
        (case astype_float pyfloat (map (\<lambda>r. coordinate 0 (fst r)) comb) of
           Inl e \<Rightarrow> Inl e
         | Inr xs \<Rightarrow>
             (case astype_float pyfloat (map (\<lambda>r. coordinate 1 (fst r)) comb) of
                Inl e \<Rightarrow> Inl e
              | Inr ys \<Rightarrow> Inr (zip xs (zip ys (map snd comb))))))"

text \<open>
  The decimal numerals among the strings \<open>float\<close> accepts: an optional sign, digits and
  an optional fraction, with their exact rational value. Exponents, \<open>inf\<close>, \<open>nan\<close>,
  underscores and surrounding blanks are left out, and so is the rounding to a binary
  float. The theorems below hold for every conversion \<open>pyfloat\<close>; this one instantiates
  them.
\<close>

definition is_digit :: "char \<Rightarrow> bool" where
  "is_digit c = (48 \<le> (of_char c :: nat) \<and> (of_char c :: nat) \<le> 57)"

definition digits_value :: "string \<Rightarrow> nat" where
  "digits_value ds = foldl (\<lambda>acc c. 10 * acc + (of_char c - 48)) 0 ds"

definition unsigned_decimal :: "string \<Rightarrow> rat option" where
  "unsigned_decimal s =
     (let ip = takeWhile is_digit s; rest = dropWhile is_digit s in
      case rest of
        [] \<Rightarrow> if ip = [] then None else Some (of_nat (digits_value ip))
      | c # fp \<Rightarrow>
          if c = CHR ''.'' \<and> list_all is_digit fp \<and> (ip \<noteq> [] \<or> fp \<noteq> [])
          then Some (of_nat (digits_value ip) + of_nat (digits_value fp) / 10 ^ length fp)
          else None)"

definition decimal_float :: "string \<Rightarrow> rat option" where
  "decimal_float s =
     (case s of
        [] \<Rightarrow> None
      | c # r \<Rightarrow>
          if c = CHR ''-'' then map_option uminus (unsigned_decimal r)
          else if c = CHR ''+'' then unsigned_decimal r
          else unsigned_decimal s)"

text \<open>
  The shape of a well-formed location string with two tokens, and the tokens the
  stripping and the splitting leave intact: not empty, without a blank, and neither
  starting nor ending with a stripped character.
\<close>

definition point_wkt :: "string \<Rightarrow> string \<Rightarrow> string" where
  "point_wkt tx ty = ''POINT ('' @ tx @ '' '' @ ty @ '')''"

definition plain_token :: "string \<Rightarrow> bool" where
  "plain_token t \<longleftrightarrow>
     t \<noteq> [] \<and> CHR '' '' \<notin> set t \<and> hd t \<notin> set ''POINT ()'' \<and> last t \<notin> set ''POINT ()''"

subsection \<open>Tables (dataFiles.py)\<close>

text \<open>
  A table is the list of its columns in order, each with its name and its cells; every
  column of a table has as many cells as the table has rows.
  A cell is a missing number (\<open>NaN\<close>), a missing datetime (\<open>NaT\<close>), a number, a string
  or a datetime; a datetime is given by year, month, day, hour, minute and second.
\<close>

type_synonym datetime = "nat \<times> nat \<times> nat \<times> nat \<times> nat \<times> nat"

datatype cell = NaN | NaT | Num rat | Str string | Timestamp datetime

type_synonym table = "(string \<times> cell list) list"

definition is_null :: "cell \<Rightarrow> bool" where
  "is_null c = (c = NaN \<or> c = NaT)"

definition is_datetime64 :: "cell \<Rightarrow> bool" where
  "is_datetime64 c = (case c of NaT \<Rightarrow> True | Timestamp t \<Rightarrow> True | _ \<Rightarrow> False)"

definition nrows :: "table \<Rightarrow> nat" where
  "nrows df = (case df of [] \<Rightarrow> 0 | (name, vs) # rest \<Rightarrow> length vs)"

definition isna :: "table \<Rightarrow> (string \<times> bool list) list" where
  "isna df = map (\<lambda>(name, vs). (name, map is_null vs)) df"

text \<open>
  \<open>df.dropna()\<close> returns a new table without the rows that hold a missing cell; the
  table it is called on is not changed.
\<close>

definition dropna :: "table \<Rightarrow> table" where
  "dropna df =
     (let keep = filter (\<lambda>i. list_all (\<lambda>(name, vs). \<not> is_null (vs ! i)) df) [0..<nrows df]
      in map (\<lambda>(name, vs). (name, map (\<lambda>i. vs ! i) keep)) df)"

text \<open>
  \<open>df[col] = v\<close> replaces the column of that name, or appends a new one.
\<close>

fun setitem :: "table \<Rightarrow> string \<Rightarrow> cell list \<Rightarrow> table" where
  "setitem [] col v = [(col, v)]"
| "setitem ((name, vs) # df) col v =
     (if name = col then (name, v) # df else (name, vs) # setitem df col v)"

text \<open>
  \<open>pd.to_datetime\<close> with the default \<open>errors='raise'\<close>: a missing cell becomes \<open>NaT\<close>,
  a datetime stays, and a number or string is parsed; a cell that cannot be parsed raises
  \<open>ValueError\<close>. How one cell is parsed (with a format, or by inference) is the parameter
  \<open>parse\<close>.
\<close>

definition to_datetime_cell :: "(cell \<Rightarrow> datetime option) \<Rightarrow> cell \<Rightarrow> cell option" where
  "to_datetime_cell parse c =
     (case c of
        NaN \<Rightarrow> Some NaT
      | NaT \<Rightarrow> Some NaT
      | Timestamp t \<Rightarrow> Some (Timestamp t)
      | _ \<Rightarrow> map_option Timestamp (parse c))"

fun to_datetime :: "(cell \<Rightarrow> datetime option) \<Rightarrow> cell list \<Rightarrow> py_error + cell list" where
  "to_datetime parse [] = Inr []"
| "to_datetime parse (c # cs) =
     (case to_datetime_cell parse c of
        None \<Rightarrow> Inl ValueError
      | Some d \<Rightarrow>
          (case to_datetime parse cs of
             Inl e \<Rightarrow> Inl e
           | Inr ds \<Rightarrow> Inr (d # ds)))"

text \<open>
  \<open>convertToDatetime(df, columns)\<close> assigns into the table it is given.
\<close>

fun convertToDatetime :: "(cell \<Rightarrow> datetime option) \<Rightarrow> table \<Rightarrow> string list \<Rightarrow> py_error + table" where
  "convertToDatetime parse df [] = Inr df"
| "convertToDatetime parse df (col # columns) =
     (case map_of df col of
        None \<Rightarrow> convertToDatetime parse df columns
      | Some vs \<Rightarrow>
          (case to_datetime parse vs of
             Inl e \<Rightarrow> Inl e
           | Inr ds \<Rightarrow> convertToDatetime parse (setitem df col ds) columns))"

text \<open>
  \<open>col.lower()\<close> on ASCII letters and the substring test \<open>"time" in ...\<close>.
\<close>

definition py_lower :: "string \<Rightarrow> string" where
  "py_lower s =
     map (\<lambda>c. if 65 \<le> (of_char c :: nat) \<and> (of_char c :: nat) \<le> 90
               then char_of (of_char c + 32 :: nat) else c) s"

fun py_in :: "string \<Rightarrow> string \<Rightarrow> bool" where
  "py_in sub [] = (sub = [])"
| "py_in sub (c # cs) = (take (length sub) (c # cs) = sub \<or> py_in sub cs)"

definition timeColumns :: "table \<Rightarrow> string list" where
  "timeColumns df = filter (\<lambda>col. py_in ''time'' (py_lower col)) (map fst df)"

definition convertTimeColumns :: "(cell \<Rightarrow> datetime option) \<Rightarrow> table \<Rightarrow> py_error + table" where
  "convertTimeColumns parse df =
     (if timeColumns df \<noteq> [] then convertToDatetime parse df (timeColumns df) else Inr df)"

text \<open>
  The loop over \<open>attributes.items()\<close> (and \<open>journals.items()\<close>): the tables of the
  dictionary are converted in place, one after the other.
\<close>

fun convertEach :: "(cell \<Rightarrow> datetime option) \<Rightarrow> (string \<times> table) list \<Rightarrow> py_error + (string \<times> table) list" where
  "convertEach parse [] = Inr []"
| "convertEach parse ((name, df) # rest) =
     (case convertTimeColumns parse df of
        Inl e \<Rightarrow> Inl e
      | Inr df' \<Rightarrow>
          (case convertEach parse rest of
             Inl e \<Rightarrow> Inl e
           | Inr rest' \<Rightarrow> Inr ((name, df') # rest')))"

subsection \<open>The ETL script (dataFiles.py)\<close>

text \<open>
  The state of the script after the CSV files are read: the concatenated status log and
  the two dictionaries from file name to table, in the order of the directory listing.
\<close>

record etl_state =
  dfParticipantStatusLogs :: table
  attributes :: "(string \<times> table) list"
  journals :: "(string \<times> table) list"

text \<open>
  The three cleaning statements are expression statements: \<open>dropna\<close> is computed and its
  result is bound to nothing.
\<close>

definition dropnaLogs :: "etl_state \<Rightarrow> etl_state" where
  "dropnaLogs s = (let dropped = dropna (dfParticipantStatusLogs s) in s)"

definition dropnaAttributes :: "etl_state \<Rightarrow> etl_state" where
  "dropnaAttributes s = (let dropped = map (\<lambda>(name, df). dropna df) (attributes s) in s)"

definition dropnaJournals :: "etl_state \<Rightarrow> etl_state" where
  "dropnaJournals s = (let dropped = map (\<lambda>(name, df). dropna df) (journals s) in s)"

definition timestampFormat :: string where
  "timestampFormat = ''%Y-%m-%dT%H:%M:%SZ''"

definition cleanTimestamp :: "(string \<Rightarrow> cell \<Rightarrow> datetime option) \<Rightarrow> table \<Rightarrow> py_error + table" where
  "cleanTimestamp strptime logs =
     (case map_of logs ''timestamp'' of
        None \<Rightarrow> Inl KeyError
      | Some ts \<Rightarrow>
          (case to_datetime (strptime timestampFormat) ts of
             Inl e \<Rightarrow> Inl e
           | Inr ds \<Rightarrow> Inr (setitem logs ''timestamp'' ds)))"

text \<open>
  Lines 16 to 45 of the script. \<open>strptime\<close> parses one cell with a format and \<open>infer\<close>
  parses one cell without.
\<close>

definition etl ::
  "(string \<Rightarrow> cell \<Rightarrow> datetime option) \<Rightarrow> (cell \<Rightarrow> datetime option) \<Rightarrow> etl_state \<Rightarrow> py_error + etl_state" where
  "etl strptime infer s0 =
     (let s1 = dropnaLogs s0;
          s2 = dropnaAttributes s1
      in case convertEach infer (attributes s2) of
           Inl e \<Rightarrow> Inl e
         | Inr attrs \<Rightarrow>
             (let s3 = s2\<lparr>attributes := attrs\<rparr>;
                  s4 = dropnaJournals s3
              in case convertEach infer (journals s4) of
                   Inl e \<Rightarrow> Inl e
                 | Inr js \<Rightarrow>
                     (let s5 = s4\<lparr>journals := js\<rparr>
                      in case cleanTimestamp strptime (dfParticipantStatusLogs s5) of
                           Inl e \<Rightarrow> Inl e
                         | Inr logs \<Rightarrow> Inr (s5\<lparr>dfParticipantStatusLogs := logs\<rparr>))))"

subsection \<open>Cache files (dataFiles.py, to_pickle; vast2022app.py, read_pickle)\<close>

text \<open>
  A pickle file holds a snapshot of the table object. The file system maps a path to
  the table stored there; reading a path that was never written raises
  \<open>FileNotFoundError\<close>.
\<close>

type_synonym filesystem = "string \<rightharpoonup> table"

definition to_pickle :: "filesystem \<Rightarrow> string \<Rightarrow> table \<Rightarrow> filesystem" where
  "to_pickle fs path df = fs(path \<mapsto> df)"

definition read_pickle :: "filesystem \<Rightarrow> string \<Rightarrow> py_error + table" where
  "read_pickle fs path =
     (case fs path of
        None \<Rightarrow> Inl FileNotFoundError
      | Some df \<Rightarrow> Inr df)"

definition statusLogsPath :: string where
  "statusLogsPath = ''processed_participant_status_logs.pkl''"

definition attributesPath :: "string \<Rightarrow> string" where
  "attributesPath name = ''processed_'' @ name @ ''_attributes.pkl''"

definition journalsPath :: "string \<Rightarrow> string" where
  "journalsPath name = ''processed_'' @ name @ ''_journals.pkl''"

definition kidCountsPath :: string where
  "kidCountsPath = ''processed_household_kid_counts.pkl''"

fun to_pickle_each :: "(string \<Rightarrow> string) \<Rightarrow> filesystem \<Rightarrow> (string \<times> table) list \<Rightarrow> filesystem" where
  "to_pickle_each path fs [] = fs"
| "to_pickle_each path fs ((name, df) # rest) = to_pickle_each path (to_pickle fs (path name) df) rest"

text \<open>
  Lines 48 to 56 of the script. The grouping that computes \<open>householdKidCounts\<close> from
  the Participants table is the parameter \<open>groupKids\<close>.
\<close>

definition save ::
  "(table \<Rightarrow> py_error + table) \<Rightarrow> etl_state \<Rightarrow> filesystem \<Rightarrow> py_error + filesystem" where
  "save groupKids s fs =
     (let fs1 = to_pickle fs statusLogsPath (dfParticipantStatusLogs s);
          fs2 = to_pickle_each attributesPath fs1 (attributes s);
          fs3 = to_pickle_each journalsPath fs2 (journals s)
      in case map_of (attributes s) ''Participants.csv'' of
           None \<Rightarrow> Inl KeyError
         | Some participants \<Rightarrow>
             (case groupKids participants of
                Inl e \<Rightarrow> Inl e
              | Inr householdKidCounts \<Rightarrow> Inr (to_pickle fs3 kidCountsPath householdKidCounts)))"

definition dataFiles ::
  "(string \<Rightarrow> cell \<Rightarrow> datetime option) \<Rightarrow> (cell \<Rightarrow> datetime option) \<Rightarrow> (table \<Rightarrow> py_error + table)
     \<Rightarrow> etl_state \<Rightarrow> filesystem \<Rightarrow> py_error + filesystem" where
  "dataFiles strptime infer groupKids s0 fs =
     (case etl strptime infer s0 of
        Inl e \<Rightarrow> Inl e
      | Inr s \<Rightarrow> save groupKids s fs)"

text \<open>
  Lines 10 to 15 of the dashboard: the directory listings are filtered by
  \<open>endswith('.csv')\<close> and every table is read back under the name the ETL derived.
\<close>

definition endswith :: "string \<Rightarrow> string \<Rightarrow> bool" where
  "endswith s suffix = (length suffix \<le> length s \<and> drop (length s - length suffix) s = suffix)"

fun read_pickle_each :: "(string \<Rightarrow> string) \<Rightarrow> filesystem \<Rightarrow> string list \<Rightarrow> py_error + (string \<times> table) list" where
  "read_pickle_each path fs [] = Inr []"
| "read_pickle_each path fs (file # files) =
     (case read_pickle fs (path file) of
        Inl e \<Rightarrow> Inl e
      | Inr df \<Rightarrow>
          (case read_pickle_each path fs files of
             Inl e \<Rightarrow> Inl e
           | Inr rest \<Rightarrow> Inr ((file, df) # rest)))"

record app_tables =
  loadedStatusLogs :: table
  loadedAttributes :: "(string \<times> table) list"
  loadedJournals :: "(string \<times> table) list"
  loadedKidCounts :: table

definition load :: "filesystem \<Rightarrow> string list \<Rightarrow> string list \<Rightarrow> py_error + app_tables" where
  "load fs attributesDir journalsDir =
     (case read_pickle fs statusLogsPath of
        Inl e \<Rightarrow> Inl e
      | Inr logs \<Rightarrow>
          (case read_pickle_each attributesPath fs
                  (filter (\<lambda>file. endswith file ''.csv'') attributesDir) of
             Inl e \<Rightarrow> Inl e
           | Inr attrs \<Rightarrow>
               (case read_pickle_each journalsPath fs
                       (filter (\<lambda>file. endswith file ''.csv'') journalsDir) of
                  Inl e \<Rightarrow> Inl e
                | Inr js \<Rightarrow>
                    (case read_pickle fs kidCountsPath of
                       Inl e \<Rightarrow> Inl e
                     | Inr kids \<Rightarrow>
                         Inr \<lparr>loadedStatusLogs = logs, loadedAttributes = attrs,
                              loadedJournals = js, loadedKidCounts = kids\<rparr>))))"

subsection \<open>An example run\<close>

text \<open>
  A parser for the format \<open>%Y-%m-%dT%H:%M:%SZ\<close> that reads every field zero-padded,
  and a small state with a missing timestamp and a missing participant identifier.
\<close>

definition field :: "string \<Rightarrow> nat \<Rightarrow> nat \<Rightarrow> nat option" where
  "field s start len =
     (let ds = take len (drop start s)
      in if length ds = len \<and> list_all is_digit ds then Some (digits_value ds) else None)"

definition separators :: "string \<Rightarrow> bool" where
  "separators s =
     (length s = 20 \<and> s ! 4 = CHR ''-'' \<and> s ! 7 = CHR ''-'' \<and> s ! 10 = CHR ''T''
      \<and> s ! 13 = CHR '':'' \<and> s ! 16 = CHR '':'' \<and> s ! 19 = CHR ''Z'')"

definition zero_padded_strptime :: "string \<Rightarrow> cell \<Rightarrow> datetime option" where
  "zero_padded_strptime fmt c =
     (case c of
        Str s \<Rightarrow>
          (if fmt = timestampFormat \<and> separators s then
             (case (field s 0 4, field s 5 2, field s 8 2, field s 11 2, field s 14 2, field s 17 2) of
                (Some y, Some mo, Some d, Some h, Some mi, Some sec) \<Rightarrow>
                  if 1 \<le> mo \<and> mo \<le> 12 \<and> 1 \<le> d \<and> d \<le> 31 \<and> h < 24 \<and> mi < 60 \<and> sec < 60
                  then Some (y, mo, d, h, mi, sec) else None
              | _ \<Rightarrow> None)
           else None)
      | _ \<Rightarrow> None)"

definition exampleState :: etl_state where
  "exampleState =
     \<lparr>dfParticipantStatusLogs =
        [(''timestamp'', [Str ''2022-03-01T00:00:00Z'', NaN]),
         (''participantId'', [Num 1, Num 2])],
      attributes =
        [(''Participants.csv'', [(''participantId'', [Num 1, NaN]), (''age'', [Num 25, Num 40])])],
      journals =
        [(''TravelJournal.csv'',
            [(''travelStartTime'', [Str ''2022-03-01T08:05:00Z'']), (''purpose'', [NaN])])]\<rparr>"

section \<open>Properties\<close>

subsection \<open>Router\<close>

text \<open>
  C9. The router returns the Participant page for /participantDashboard, the Social
  Activity page for /socialActivityDashboard, the Business page for /businessDashboard,
  and the Home page for / and for every other path; the globals are left as they were.
\<close>

theorem displayPage_routes:
  "fst (displayPage ''/participantDashboard'' g) = participantDashboardLayout g
   \<and> fst (displayPage ''/socialActivityDashboard'' g) = socialActivityDashboardLayout g
   \<and> fst (displayPage ''/businessDashboard'' g) = businessDashboard g
   \<and> fst (displayPage ''/'' g) = homePage g
   \<and> (p \<notin> {''/participantDashboard'', ''/socialActivityDashboard'', ''/businessDashboard''}
        \<longrightarrow> fst (displayPage p g) = homePage g)
   \<and> snd (displayPage p g) = g"
  by (simp add: displayPage_def)

theorem displayPage_routes_witness:
  "''/unknown'' \<notin> {''/participantDashboard'', ''/socialActivityDashboard'', ''/businessDashboard''}
   \<and> fst (displayPage ''/unknown''
        \<lparr>homePage = (0::nat), participantDashboardLayout = 1,
         socialActivityDashboardLayout = 2, businessDashboard = 3\<rparr>) = 0"
  using displayPage_routes [of "\<lparr>homePage = (0::nat), participantDashboardLayout = 1,
         socialActivityDashboardLayout = 2, businessDashboard = 3\<rparr>" "''/unknown''"]
  by simp

subsection \<open>Age groups\<close>

lemma ageGroup_intervals:
  "ageGroup (Some a) =
     (if 20 < a \<and> a \<le> 30 then Some ''20-29''
      else if 30 < a \<and> a \<le> 40 then Some ''30-39''
      else if 40 < a \<and> a \<le> 50 then Some ''40-49''
      else None)"
  by (simp add: ageGroup_def cut_def searchsorted_left_def ageBins_def ageLabels_def)

text \<open>
  C1. The claim has the bins closed on the left: 20 in "20-29", 30 in "30-39", 50 in no
  group. The call leaves \<open>right\<close> at its default, so the bins are closed on the right:
  20 is in no group, 30 is in "20-29", 50 is in "40-49" and is counted in the pivot.
\<close>

theorem ageGroup_boundaries:
  "ageGroup (Some 19) = None
   \<and> ageGroup (Some 20) = None
   \<and> ageGroup (Some 29) = Some ''20-29''
   \<and> ageGroup (Some 30) = Some ''20-29''
   \<and> ageGroup (Some 49) = Some ''40-49''
   \<and> ageGroup (Some 50) = Some ''40-49''
   \<and> pivotCell [(Some 20, ''Bachelors''), (Some 50, ''Bachelors'')] ''20-29'' ''Bachelors'' = 0
   \<and> pivotCell [(Some 20, ''Bachelors''), (Some 50, ''Bachelors'')] ''40-49'' ''Bachelors'' = 1"
  by (simp add: ageGroup_intervals pivotCell_def)

subsection \<open>Social graph\<close>

lemma groupby_size_set: "set (groupby_size ks) = (\<lambda>k. (k, count_list ks k)) ` set ks"
  by (simp add: groupby_size_def)

lemma groupby_size_keys: "map fst (groupby_size ks) = sort (remdups ks)"
  by (simp add: groupby_size_def comp_def)

lemma groupby_size_sum: "sum_list (map snd (groupby_size ks)) = length ks"
proof -
  have "sum_list (map snd (groupby_size ks)) = sum_list (map (count_list ks) (sort (remdups ks)))"
    by (simp add: groupby_size_def comp_def)
  also have "\<dots> = sum (count_list ks) (set (sort (remdups ks)))"
    by (rule sum_list_distinct_conv_sum_set) simp
  also have "\<dots> = length ks"
    by (simp add: sum_count_set)
  finally show ?thesis .
qed

lemma groupby_sum_keys: "map fst (groupby_sum kvs) = sort (remdups (map fst kvs))"
  by (simp add: groupby_sum_def comp_def)

lemma groupby_sum_map_of:
  "map_of (groupby_sum kvs) k =
     (if k \<in> fst ` set kvs then Some (sum_list (map snd (filter (\<lambda>kv. fst kv = k) kvs))) else None)"
  by (simp add: groupby_sum_def map_of_map_restrict restrict_map_def)

lemma insort_ranked:
  fixes ys :: "(int \<times> nat) list"
  assumes "sorted_wrt (\<lambda>a b. snd b < snd a \<or> (snd b = snd a \<and> fst a < fst b)) ys"
    and "\<forall>y\<in>set ys. fst x < fst y"
  shows "sorted_wrt (\<lambda>a b. snd b < snd a \<or> (snd b = snd a \<and> fst a < fst b))
           (insort_key (\<lambda>r. - int (snd r)) x ys)"
  using assms
  by (induction ys) (auto simp: set_insort_key)

lemma sort_key_ranked:
  fixes rows :: "(int \<times> nat) list"
  assumes "sorted_wrt (<) (map fst rows)"
  shows "sorted_wrt (\<lambda>a b. snd b < snd a \<or> (snd b = snd a \<and> fst a < fst b))
           (sort_key (\<lambda>r. - int (snd r)) rows)"
  using assms
proof (induction rows)
  case Nil
  then show ?case by simp
next
  case (Cons x rows)
  have "\<forall>y\<in>set (sort_key (\<lambda>r. - int (snd r)) rows). fst x < fst y"
    using Cons.prems by auto
  moreover have "sorted_wrt (\<lambda>a b. snd b < snd a \<or> (snd b = snd a \<and> fst a < fst b))
                   (sort_key (\<lambda>r. - int (snd r)) rows)"
    using Cons by simp
  ultimately show ?case
    by (simp add: insort_ranked)
qed

lemma nlargest_ranked:
  fixes rows :: "(int \<times> nat) list"
  assumes "sorted_wrt (<) (map fst rows)"
    and "a \<in> set (nlargest n rows)" and "b \<in> set rows" and "b \<notin> set (nlargest n rows)"
  shows "snd b < snd a \<or> (snd b = snd a \<and> fst a < fst b)"
proof -
  let ?xs = "sort_key (\<lambda>r. - int (snd r)) rows"
  have "sorted_wrt (\<lambda>a b. snd b < snd a \<or> (snd b = snd a \<and> fst a < fst b)) (take n ?xs @ drop n ?xs)"
    using sort_key_ranked [OF assms(1)] by simp
  moreover have "a \<in> set (take n ?xs)"
    using assms(2) by (simp add: nlargest_def)
  moreover have "b \<in> set (drop n ?xs)"
  proof -
    have "set (take n ?xs) \<union> set (drop n ?xs) = set rows"
      by (metis append_take_drop_id set_append set_sort)
    then show ?thesis using assms(3,4) by (auto simp: nlargest_def)
  qed
  ultimately show ?thesis
    unfolding sorted_wrt_append by blast
qed

lemma nlargest_length: "length (nlargest n rows) = min n (length rows)"
  by (simp add: nlargest_def min.commute)

lemma nlargest_subset: "set (nlargest n rows) \<subseteq> set rows"
  using set_take_subset [of n "sort_key (\<lambda>r. - int (snd r)) rows"] by (simp add: nlargest_def)

lemma nlargest_distinct: "distinct rows \<Longrightarrow> distinct (nlargest n rows)"
  by (simp add: nlargest_def)

lemma participantInteractions_ids:
  "map fst (participantInteractions es) = sort (remdups (map edgeFrom es))"
  by (simp add: participantInteractions_def groupby_sum_keys comp_def)

lemma participantInteractions_strict: "sorted_wrt (<) (map fst (participantInteractions es))"
  by (simp add: participantInteractions_ids strict_sorted_iff)

lemma participantInteractions_map_of:
  "map_of (participantInteractions es) p =
     (if p \<in> edgeFrom ` set es
      then Some (sum_list (map edgeWeight (filter (\<lambda>e. edgeFrom e = p) es)))
      else None)"
  by (simp add: participantInteractions_def groupby_sum_map_of image_image filter_map comp_def)

lemma ranked_unique:
  fixes A :: "(int \<times> nat) set"
  assumes "finite A" "S \<subseteq> A" "T \<subseteq> A" "card S = card T"
    and S: "\<forall>a\<in>S. \<forall>b\<in>A - S. snd b < snd a \<or> (snd b = snd a \<and> fst a < fst b)"
    and T: "\<forall>a\<in>T. \<forall>b\<in>A - T. snd b < snd a \<or> (snd b = snd a \<and> fst a < fst b)"
  shows "S = T"
proof (rule ccontr)
  assume ne: "S \<noteq> T"
  have fin: "finite S" "finite T" using assms(1-3) by (auto intro: finite_subset)
  have "\<not> S \<subseteq> T"
    using ne fin assms(4) by (metis card_subset_eq)
  then obtain a where a: "a \<in> S" "a \<notin> T" by blast
  have "\<not> T \<subseteq> S"
    using ne fin assms(4) by (metis card_subset_eq)
  then obtain b where b: "b \<in> T" "b \<notin> S" by blast
  have "snd b < snd a \<or> (snd b = snd a \<and> fst a < fst b)"
    using S a(1) b assms(3) by blast
  moreover have "snd a < snd b \<or> (snd a = snd b \<and> fst b < fst a)"
    using T b(1) a assms(2) by blast
  ultimately show False by auto
qed

lemma edgesWithFrequency_sum:
  "sum_list (map edgeWeight (edgesWithFrequency sn)) = length (List.map_filter groupKey sn)"
proof -
  have "map edgeWeight (edgesWithFrequency sn) = map snd (groupby_size (List.map_filter groupKey sn))"
    by (simp add: edgesWithFrequency_def edgeWeight_def split_def comp_def)
  then show ?thesis by (simp add: groupby_size_sum)
qed

lemma length_map_filter_groupKey:
  "length (List.map_filter groupKey sn) = length (filter (\<lambda>ev. fst ev \<noteq> None \<and> snd ev \<noteq> None) sn)"
  by (induction sn) (auto simp: List.map_filter_simps groupKey_def split: option.splits)

lemma groupKey_Some: "groupKey ev = Some (f, t) \<longleftrightarrow> ev = (Some f, Some t)"
  by (cases ev) (auto simp: groupKey_def split: option.splits)

lemma set_map_filter_groupKey:
  "(f, t) \<in> set (List.map_filter groupKey sn) \<longleftrightarrow> (Some f, Some t) \<in> set sn"
proof (induction sn)
  case Nil
  then show ?case by (simp add: List.map_filter_simps)
next
  case (Cons ev sn)
  show ?case
  proof (cases "groupKey ev")
    case None
    then have "ev \<noteq> (Some f, Some t)" by (auto simp: groupKey_def)
    then show ?thesis using None Cons by (simp add: List.map_filter_simps)
  next
    case (Some k)
    then show ?thesis using Cons groupKey_Some [of ev f t]
      by (cases k) (auto simp: List.map_filter_simps)
  qed
qed

lemma count_map_filter_groupKey:
  "count_list (List.map_filter groupKey sn) (f, t) = count_list sn (Some f, Some t)"
proof (induction sn)
  case Nil
  then show ?case by (simp add: List.map_filter_simps)
next
  case (Cons ev sn)
  show ?case
  proof (cases "groupKey ev")
    case None
    then have "ev \<noteq> (Some f, Some t)" by (auto simp: groupKey_def)
    then show ?thesis using None Cons by (simp add: List.map_filter_simps)
  next
    case (Some k)
    then show ?thesis using Cons groupKey_Some [of ev f t]
      by (cases k) (auto simp: List.map_filter_simps)
  qed
qed

lemma edgesWithFrequency_mem:
  "(f, t, w) \<in> set (edgesWithFrequency sn) \<longleftrightarrow>
     (Some f, Some t) \<in> set sn \<and> w = count_list sn (Some f, Some t)"
proof -
  have "(f, t, w) \<in> set (edgesWithFrequency sn) \<longleftrightarrow>
          ((f, t), w) \<in> set (groupby_size (List.map_filter groupKey sn))"
    by (force simp: edgesWithFrequency_def)
  also have "\<dots> \<longleftrightarrow> (f, t) \<in> set (List.map_filter groupKey sn)
                 \<and> w = count_list (List.map_filter groupKey sn) (f, t)"
    by (auto simp: groupby_size_set)
  finally show ?thesis
    by (simp add: set_map_filter_groupKey count_map_filter_groupKey)
qed

lemma edgesWithFrequency_keys:
  "map (\<lambda>e. (edgeFrom e, edgeTo e)) (edgesWithFrequency sn)
     = sort (remdups (List.map_filter groupKey sn))"
proof -
  have "map (\<lambda>e. (edgeFrom e, edgeTo e)) (edgesWithFrequency sn)
          = map fst (groupby_size (List.map_filter groupKey sn))"
    by (simp add: edgesWithFrequency_def edgeFrom_def edgeTo_def split_def comp_def)
  then show ?thesis by (simp add: groupby_size_keys)
qed

lemma participantInteractions_mem:
  "(p, tw) \<in> set (participantInteractions es) \<longleftrightarrow>
     p \<in> edgeFrom ` set es \<and> tw = sum_list (map edgeWeight (filter (\<lambda>e. edgeFrom e = p) es))"
proof -
  have "distinct (map fst (participantInteractions es))"
    by (simp add: participantInteractions_ids)
  then have "(p, tw) \<in> set (participantInteractions es) \<longleftrightarrow>
               map_of (participantInteractions es) p = Some tw"
    by simp
  then show ?thesis
    by (auto simp: participantInteractions_map_of)
qed

lemma topParticipants_subset: "set (topParticipants es) \<subseteq> edgeFrom ` set es"
proof -
  have "set (topParticipants es) \<subseteq> fst ` set (participantInteractions es)"
    using nlargest_subset [of 10 "participantInteractions es"]
    by (auto simp: topParticipants_def)
  also have "\<dots> = set (map fst (participantInteractions es))" by simp
  also have "\<dots> = edgeFrom ` set es"
    by (simp only: participantInteractions_ids) simp
  finally show ?thesis .
qed

lemma topParticipants_length:
  "length (topParticipants es) = min 10 (card (edgeFrom ` set es))"
proof -
  have "length (participantInteractions es) = length (map fst (participantInteractions es))"
    by simp
  also have "\<dots> = card (edgeFrom ` set es)"
    by (simp only: participantInteractions_ids) (simp add: length_remdups_card_conv)
  finally show ?thesis
    by (simp add: topParticipants_def nlargest_length)
qed

lemma topParticipants_distinct: "distinct (topParticipants es)"
proof -
  have "distinct (map fst (participantInteractions es))"
    by (simp add: participantInteractions_ids)
  then have "distinct (map fst (sort_key (\<lambda>r. - int (snd r)) (participantInteractions es)))"
    by (metis distinct_map distinct_sort set_sort)
  then show ?thesis
    by (simp add: topParticipants_def nlargest_def take_map [symmetric] distinct_take)
qed

lemma topParticipants_rank:
  assumes "p \<in> set (topParticipants es)" and "q \<in> edgeFrom ` set es"
    and "q \<notin> set (topParticipants es)"
  shows "sum_list (map edgeWeight (filter (\<lambda>e. edgeFrom e = q) es))
           \<le> sum_list (map edgeWeight (filter (\<lambda>e. edgeFrom e = p) es))"
proof -
  let ?PI = "participantInteractions es"
  obtain a where a: "a \<in> set (nlargest 10 ?PI)" "fst a = p"
    using assms(1) by (auto simp: topParticipants_def)
  have "a \<in> set ?PI" using a(1) nlargest_subset by blast
  then have "(p, snd a) \<in> set ?PI" using a(2) by (metis prod.collapse)
  then have wa: "snd a = sum_list (map edgeWeight (filter (\<lambda>e. edgeFrom e = p) es))"
    by (simp add: participantInteractions_mem)
  let ?b = "(q, sum_list (map edgeWeight (filter (\<lambda>e. edgeFrom e = q) es)))"
  have b: "?b \<in> set ?PI"
    using assms(2) by (simp add: participantInteractions_mem)
  have "?b \<notin> set (nlargest 10 ?PI)"
    using assms(3) by (force simp: topParticipants_def)
  then have "snd ?b < snd a \<or> (snd ?b = snd a \<and> fst a < fst ?b)"
    using nlargest_ranked [OF participantInteractions_strict a(1) b] by blast
  then show ?thesis using wa by auto
qed

lemma filteredEdges_filter:
  "filteredEdges es =
     filter (\<lambda>e. (edgeFrom e \<in> set (topParticipants es) \<or> edgeTo e \<in> set (topParticipants es))
                  \<and> 200 < edgeWeight e) es"
  by (simp add: filteredEdges_def Let_def conj_commute)

text \<open>
  C3. The graph construction groups the communication events by (from, to) pair with the
  number of occurrences as weight, sums each participant's outgoing weights, selects the
  top 10 participants by that sum, and keeps exactly the edges that touch a top
  participant and weigh more than 200. An edge of weight 300 between two participants
  outside the top is left out, and the node set is the union of the endpoints of the
  kept edges.
\<close>

theorem social_graph_construction:
  "let E = edgesWithFrequency sn; top = topParticipants E; kept = filteredEdges E in
     ((f, t, w) \<in> set E \<longleftrightarrow> (Some f, Some t) \<in> set sn \<and> w = count_list sn (Some f, Some t))
   \<and> distinct (map (\<lambda>e. (edgeFrom e, edgeTo e)) E)
   \<and> ((p, tw) \<in> set (participantInteractions E) \<longleftrightarrow>
        p \<in> edgeFrom ` set E \<and> tw = sum_list (map edgeWeight (filter (\<lambda>e. edgeFrom e = p) E)))
   \<and> set top \<subseteq> edgeFrom ` set E \<and> distinct top
   \<and> length top = min 10 (card (edgeFrom ` set E))
   \<and> (\<forall>a\<in>set top. \<forall>b\<in>edgeFrom ` set E - set top.
         sum_list (map edgeWeight (filter (\<lambda>e. edgeFrom e = b) E))
           \<le> sum_list (map edgeWeight (filter (\<lambda>e. edgeFrom e = a) E)))
   \<and> kept = filter (\<lambda>e. (edgeFrom e \<in> set top \<or> edgeTo e \<in> set top) \<and> 200 < edgeWeight e) E
   \<and> (f \<notin> set top \<and> t \<notin> set top \<longrightarrow> (f, t, 300) \<notin> set kept)
   \<and> nodes E = edgeFrom ` set kept \<union> edgeTo ` set kept"
proof -
  let ?E = "edgesWithFrequency sn"
  have d: "distinct (map (\<lambda>e. (edgeFrom e, edgeTo e)) ?E)"
    by (simp add: edgesWithFrequency_keys)
  have r: "\<forall>a\<in>set (topParticipants ?E). \<forall>b\<in>edgeFrom ` set ?E - set (topParticipants ?E).
         sum_list (map edgeWeight (filter (\<lambda>e. edgeFrom e = b) ?E))
           \<le> sum_list (map edgeWeight (filter (\<lambda>e. edgeFrom e = a) ?E))"
    using topParticipants_rank [of _ ?E] by blast
  have k: "f \<notin> set (topParticipants ?E) \<and> t \<notin> set (topParticipants ?E)
             \<longrightarrow> (f, t, 300) \<notin> set (filteredEdges ?E)"
    by (simp add: filteredEdges_filter edgeFrom_def edgeTo_def)
  have n: "nodes ?E = edgeFrom ` set (filteredEdges ?E) \<union> edgeTo ` set (filteredEdges ?E)"
    by (simp add: nodes_def)
  show ?thesis
    unfolding Let_def
    using edgesWithFrequency_mem [of f t w sn] d participantInteractions_mem [of p tw ?E]
      topParticipants_subset [of ?E] topParticipants_distinct [of ?E]
      topParticipants_length [of ?E] r filteredEdges_filter [of ?E] k n
    by blast
qed

theorem social_graph_construction_witness:
  "(1, 2, 2) \<in> set (edgesWithFrequency [(Some 1, Some 2), (Some 3, Some 1), (Some 1, Some 2), (None, Some 2), (Some 1, Some 4)])
   \<and> topParticipants (edgesWithFrequency [(Some 1, Some 2), (Some 3, Some 1), (Some 1, Some 2), (None, Some 2), (Some 1, Some 4)]) = [1, 3]
   \<and> (7, 8, 300) \<notin> set (filteredEdges (edgesWithFrequency [(Some 1, Some 2), (Some 3, Some 1), (Some 1, Some 2), (None, Some 2), (Some 1, Some 4)]))"
proof -
  let ?sn = "[(Some 1, Some 2), (Some 3, Some 1), (Some 1, Some 2), (None, Some 2), (Some 1, Some 4)] :: event list"
  have e: "edgesWithFrequency ?sn = [(1, 2, 2), (1, 4, 1), (3, 1, 1)]" by code_simp
  have t: "topParticipants (edgesWithFrequency ?sn) = [1, 3]" unfolding e by code_simp
  have m: "(1, 2, 2) \<in> set (edgesWithFrequency ?sn)" unfolding e by simp
  have nt: "7 \<notin> set (topParticipants (edgesWithFrequency ?sn))
            \<and> 8 \<notin> set (topParticipants (edgesWithFrequency ?sn))"
    unfolding t by simp
  have "7 \<notin> set (topParticipants (edgesWithFrequency ?sn))
          \<and> 8 \<notin> set (topParticipants (edgesWithFrequency ?sn))
        \<longrightarrow> (7, 8, 300) \<notin> set (filteredEdges (edgesWithFrequency ?sn))"
    using social_graph_construction [of ?sn 7 8 300 1 3] unfolding Let_def
    by (elim conjE) assumption
  then show ?thesis using m t nt by blast
qed

lemma participantInteractions_distinct: "distinct (participantInteractions es)"
proof -
  have "distinct (map fst (participantInteractions es))"
    by (simp add: participantInteractions_ids)
  then show ?thesis by (simp add: distinct_map)
qed

text \<open>
  C6. The top 10 are selected by a total order: larger total outgoing weight first, and
  among equal weights the smaller participant identifier first. Every selected row
  precedes every unselected row in this order, and the selected set is the only set of
  its size with that property.
\<close>

theorem topParticipants_tie_break:
  "let PI = participantInteractions es; top = nlargest 10 PI in
     topParticipants es = map fst top
   \<and> sorted_wrt (<) (map fst PI)
   \<and> set top \<subseteq> set PI
   \<and> length top = min 10 (length PI)
   \<and> (\<forall>a\<in>set top. \<forall>b\<in>set PI - set top.
         snd b < snd a \<or> (snd b = snd a \<and> fst a < fst b))
   \<and> (\<forall>S. S \<subseteq> set PI \<and> card S = length top
            \<and> (\<forall>a\<in>S. \<forall>b\<in>set PI - S. snd b < snd a \<or> (snd b = snd a \<and> fst a < fst b))
          \<longrightarrow> S = set top)"
proof -
  let ?PI = "participantInteractions es"
  let ?top = "nlargest 10 ?PI"
  have sub: "set ?top \<subseteq> set ?PI" by (rule nlargest_subset)
  have rank: "\<forall>a\<in>set ?top. \<forall>b\<in>set ?PI - set ?top.
                snd b < snd a \<or> (snd b = snd a \<and> fst a < fst b)"
    using nlargest_ranked [OF participantInteractions_strict] by blast
  have card: "card (set ?top) = length ?top"
    by (simp add: distinct_card nlargest_distinct participantInteractions_distinct)
  have uniq: "\<forall>S. S \<subseteq> set ?PI \<and> card S = length ?top
            \<and> (\<forall>a\<in>S. \<forall>b\<in>set ?PI - S. snd b < snd a \<or> (snd b = snd a \<and> fst a < fst b))
          \<longrightarrow> S = set ?top"
  proof (intro allI impI, elim conjE)
    fix S
    assume "S \<subseteq> set ?PI" and "card S = length ?top"
      and "\<forall>a\<in>S. \<forall>b\<in>set ?PI - S. snd b < snd a \<or> (snd b = snd a \<and> fst a < fst b)"
    then show "S = set ?top"
      using ranked_unique [of "set ?PI" S "set ?top"] sub rank card by simp
  qed
  show ?thesis
    unfolding Let_def
    using sub rank uniq participantInteractions_strict [of es] nlargest_length [of 10 ?PI]
    by (simp add: topParticipants_def)
qed

theorem topParticipants_tie_break_witness:
  "topParticipants [(1, 0, 5), (2, 0, 5), (3, 0, 9), (4, 0, 9), (5, 0, 9), (6, 0, 9),
       (7, 0, 9), (8, 0, 9), (9, 0, 9), (10, 0, 9), (11, 0, 9)]
     = [3, 4, 5, 6, 7, 8, 9, 10, 11, 1]
   \<and> (snd (2 :: int, 5 :: nat) < snd (1 :: int, 5 :: nat)
       \<or> (snd (2 :: int, 5 :: nat) = snd (1 :: int, 5 :: nat) \<and> fst (1 :: int, 5 :: nat) < fst (2 :: int, 5 :: nat)))"
proof -
  let ?es = "[(1, 0, 5), (2, 0, 5), (3, 0, 9), (4, 0, 9), (5, 0, 9), (6, 0, 9),
       (7, 0, 9), (8, 0, 9), (9, 0, 9), (10, 0, 9), (11, 0, 9)] :: edge list"
  have pi: "participantInteractions ?es = [(1, 5), (2, 5), (3, 9), (4, 9), (5, 9), (6, 9),
       (7, 9), (8, 9), (9, 9), (10, 9), (11, 9)]"
    by code_simp
  have top: "nlargest 10 [(1, 5), (2, 5), (3, 9), (4, 9), (5, 9), (6, 9),
       (7, 9), (8, 9), (9, 9), (10, 9), (11, 9)]
     = [(3, 9), (4, 9), (5, 9), (6, 9), (7, 9), (8, 9), (9, 9), (10, 9), (11, 9), (1, 5)]"
    by code_simp
  have a: "(1, 5) \<in> set (nlargest 10 (participantInteractions ?es))"
    unfolding pi top by simp
  have b: "(2, 5) \<in> set (participantInteractions ?es) - set (nlargest 10 (participantInteractions ?es))"
    unfolding pi top by simp
  have t: "topParticipants ?es = map fst (nlargest 10 (participantInteractions ?es))"
    using topParticipants_tie_break [of ?es] unfolding Let_def by (elim conjE) assumption
  have "\<forall>a\<in>set (nlargest 10 (participantInteractions ?es)).
         \<forall>b\<in>set (participantInteractions ?es) - set (nlargest 10 (participantInteractions ?es)).
         snd b < snd a \<or> (snd b = snd a \<and> fst a < fst b)"
    using topParticipants_tie_break [of ?es] unfolding Let_def by (elim conjE) assumption
  then have "snd (2 :: int, 5 :: nat) < snd (1 :: int, 5 :: nat)
       \<or> (snd (2 :: int, 5 :: nat) = snd (1 :: int, 5 :: nat) \<and> fst (1 :: int, 5 :: nat) < fst (2 :: int, 5 :: nat))"
    using a b by blast
  moreover have "topParticipants ?es = [3, 4, 5, 6, 7, 8, 9, 10, 11, 1]"
    unfolding t pi top by simp
  ultimately show ?thesis by blast
qed

text \<open>
  C10. The edge weights add up to the number of communication events that name both
  participants (all events, when no participant cell is missing), and a participant's
  total weight is the sum of the weights of that participant's outgoing edges.
\<close>

theorem edge_weights_count_events:
  "sum_list (map edgeWeight (edgesWithFrequency sn))
     = length (filter (\<lambda>ev. fst ev \<noteq> None \<and> snd ev \<noteq> None) sn)
   \<and> ((\<forall>ev\<in>set sn. fst ev \<noteq> None \<and> snd ev \<noteq> None)
        \<longrightarrow> sum_list (map edgeWeight (edgesWithFrequency sn)) = length sn)
   \<and> ((p, tw) \<in> set (participantInteractions (edgesWithFrequency sn)) \<longleftrightarrow>
        p \<in> edgeFrom ` set (edgesWithFrequency sn)
        \<and> tw = sum_list (map edgeWeight
                  (filter (\<lambda>e. edgeFrom e = p) (edgesWithFrequency sn))))"
proof -
  have s: "sum_list (map edgeWeight (edgesWithFrequency sn))
     = length (filter (\<lambda>ev. fst ev \<noteq> None \<and> snd ev \<noteq> None) sn)"
    by (simp only: edgesWithFrequency_sum length_map_filter_groupKey)
  have "(\<forall>ev\<in>set sn. fst ev \<noteq> None \<and> snd ev \<noteq> None)
        \<longrightarrow> filter (\<lambda>ev. fst ev \<noteq> None \<and> snd ev \<noteq> None) sn = sn"
    by (simp add: filter_id_conv)
  then show ?thesis
    using s participantInteractions_mem [of p tw "edgesWithFrequency sn"] by auto
qed

theorem edge_weights_count_events_witness:
  "(\<forall>ev\<in>set [(Some 1, Some 2), (Some 3, Some 1), (Some 1, Some 2) :: event].
      fst ev \<noteq> None \<and> snd ev \<noteq> None) = True
   \<and> sum_list (map edgeWeight (edgesWithFrequency [(Some 1, Some 2), (Some 3, Some 1), (Some 1, Some 2)])) = 3"
proof -
  let ?sn = "[(Some 1, Some 2), (Some 3, Some 1), (Some 1, Some 2)] :: event list"
  have h: "\<forall>ev\<in>set ?sn. fst ev \<noteq> None \<and> snd ev \<noteq> None" by simp
  have "(\<forall>ev\<in>set ?sn. fst ev \<noteq> None \<and> snd ev \<noteq> None)
        \<longrightarrow> sum_list (map edgeWeight (edgesWithFrequency ?sn)) = length ?sn"
    using edge_weights_count_events [of ?sn 1 3] by (elim conjE) assumption
  then show ?thesis using h by simp
qed

text \<open>
  An event with a missing participant is in no group, so the weights add up to less
  than the number of rows.
\<close>

theorem edge_weights_missing_participant_counterexample:
  "sum_list (map edgeWeight (edgesWithFrequency [(None, Some 1), (Some 1, Some 2)]))
     \<noteq> length [(None, Some 1), (Some 1, Some 2) :: event]"
  by code_simp

text \<open>
  An edge table with twelve participants: 11 and 12 are outside the top 10. The edge of
  weight 300 between them is dropped, the edge of weight 250 from 11 to the top
  participant 1 is kept, and the edge of weight 200 from the top participant 2 is dropped.
\<close>

lemma filteredEdges_example:
  "filteredEdges [(1, 2, 600), (2, 3, 600), (3, 4, 600), (4, 5, 600), (5, 6, 600), (6, 7, 600),
       (7, 8, 600), (8, 9, 600), (9, 10, 600), (10, 1, 600),
       (11, 12, 300), (12, 11, 50), (11, 1, 250), (2, 12, 200)]
   = [(1, 2, 600), (2, 3, 600), (3, 4, 600), (4, 5, 600), (5, 6, 600), (6, 7, 600),
       (7, 8, 600), (8, 9, 600), (9, 10, 600), (10, 1, 600), (11, 1, 250)]"
  by code_simp

subsection \<open>Building locations\<close>

lemma astype_float_ok:
  "(\<forall>s. Some s \<in> set col \<longrightarrow> pyfloat s \<noteq> None)
     \<Longrightarrow> astype_float pyfloat col = Inr (map (\<lambda>c. Option.bind c pyfloat) col)"
  by (induction pyfloat col rule: astype_float.induct) auto

lemma astype_float_raises:
  "Some s \<in> set col \<Longrightarrow> pyfloat s = None \<Longrightarrow> astype_float pyfloat col = Inl ValueError"
  by (induction pyfloat col rule: astype_float.induct) (auto split: sum.splits option.splits)

lemma astype_float_error: "astype_float pyfloat col = Inl e \<Longrightarrow> e = ValueError"
  by (induction pyfloat col arbitrary: e rule: astype_float.induct)
     (auto split: sum.splits option.splits)

lemma py_split_no_sep: "sep \<notin> set t \<Longrightarrow> py_split sep t = [t]"
  by (induction t) auto

lemma py_split_first: "sep \<notin> set t \<Longrightarrow> py_split sep (t @ sep # rest) = t # py_split sep rest"
  by (induction t) auto

lemma py_split_two:
  "CHR '' '' \<notin> set tx \<Longrightarrow> CHR '' '' \<notin> set ty
     \<Longrightarrow> py_split CHR '' '' (tx @ '' '' @ ty) = [tx, ty]"
  by (simp add: py_split_first py_split_no_sep)

lemma dropWhile_stop: "t \<noteq> [] \<Longrightarrow> \<not> P (hd t) \<Longrightarrow> dropWhile P (t @ rest) = t @ rest"
  by (cases t) auto

lemma py_strip_point:
  assumes "t \<noteq> []" and "hd t \<notin> set ''POINT ()''" and "last t \<notin> set ''POINT ()''"
  shows "py_strip ''POINT ()'' (''POINT ('' @ t @ '')'') = t"
proof -
  let ?P = "\<lambda>c. c \<in> set ''POINT ()''"
  have l: "dropWhile ?P (''POINT ('' @ t @ '')'') = t @ '')''"
    using dropWhile_stop [of t ?P "'')''"] assms(1,2) by simp
  have "rev (t @ '')'') = CHR '')'' # rev t" by simp
  moreover have "dropWhile ?P (rev t) = rev t"
    using dropWhile_stop [of "rev t" ?P "[]"] assms(1,3) by (simp add: hd_rev)
  ultimately have "dropWhile ?P (rev (t @ '')'')) = rev t" by simp
  then show ?thesis
    unfolding py_strip_def l by simp
qed

lemma coordinate_point_wkt:
  assumes "plain_token tx" and "plain_token ty"
  shows "coordinate 0 (Some (point_wkt tx ty)) = Some tx"
    and "coordinate (Suc 0) (Some (point_wkt tx ty)) = Some ty"
proof -
  have "py_strip ''POINT ()'' (''POINT ('' @ (tx @ '' '' @ ty) @ '')'') = tx @ '' '' @ ty"
    using assms by (intro py_strip_point) (auto simp: plain_token_def)
  then have c: "location_clean (Some (point_wkt tx ty)) = Some (tx @ '' '' @ ty)"
    by (simp add: location_clean_def point_wkt_def)
  have s: "py_split CHR '' '' (tx @ '' '' @ ty) = [tx, ty]"
    using assms by (intro py_split_two) (auto simp: plain_token_def)
  show "coordinate 0 (Some (point_wkt tx ty)) = Some tx"
    using c s by (simp add: coordinate_def str_get_def)
  show "coordinate (Suc 0) (Some (point_wkt tx ty)) = Some ty"
    using c s by (simp add: coordinate_def str_get_def)
qed

lemma coordinate_single:
  assumes "plain_token t"
  shows "coordinate 0 (Some (''POINT ('' @ t @ '')'')) = Some t"
    and "coordinate (Suc 0) (Some (''POINT ('' @ t @ '')'')) = None"
proof -
  have "py_strip ''POINT ()'' (''POINT ('' @ t @ '')'') = t"
    using assms by (intro py_strip_point) (auto simp: plain_token_def)
  then have c: "location_clean (Some (''POINT ('' @ t @ '')'')) = Some t"
    by (simp add: location_clean_def)
  have s: "py_split CHR '' '' t = [t]"
    using assms by (intro py_split_no_sep) (auto simp: plain_token_def)
  show "coordinate 0 (Some (''POINT ('' @ t @ '')'')) = Some t"
    using c s by (simp add: coordinate_def str_get_def)
  show "coordinate (Suc 0) (Some (''POINT ('' @ t @ '')'')) = None"
    using c s by (simp add: coordinate_def str_get_def)
qed

lemma astype_float_cases:
  "astype_float pyfloat col =
     (if \<exists>s. Some s \<in> set col \<and> pyfloat s = None then Inl ValueError
      else Inr (map (\<lambda>c. Option.bind c pyfloat) col))"
  using astype_float_ok [of col pyfloat] astype_float_raises [of _ col pyfloat] by auto

lemma ex_image_Some:
  "(\<exists>s. Some s \<in> set (map f xs) \<and> P s) \<longleftrightarrow> (\<exists>r\<in>set xs. \<exists>s. f r = Some s \<and> P s)"
proof
  assume "\<exists>s. Some s \<in> set (map f xs) \<and> P s"
  then obtain s where "Some s \<in> set (map f xs)" "P s" by blast
  then obtain r where "r \<in> set xs" "f r = Some s" by auto
  then show "\<exists>r\<in>set xs. \<exists>s. f r = Some s \<and> P s" using \<open>P s\<close> by blast
next
  assume "\<exists>r\<in>set xs. \<exists>s. f r = Some s \<and> P s"
  then obtain r s where "r \<in> set xs" "f r = Some s" "P s" by blast
  then have "Some s \<in> set (map f xs)" by force
  then show "\<exists>s. Some s \<in> set (map f xs) \<and> P s" using \<open>P s\<close> by blast
qed

lemma coordinate_missing: "coordinate i None = None"
  by (simp add: coordinate_def location_clean_def)

lemma zip_three:
  "zip (map f xs) (zip (map g xs) (map h xs)) = map (\<lambda>x. (f x, g x, h x)) xs"
  by (induction xs) auto

lemma finalDf_cases:
  "finalDf pyfloat comb =
     (if comb \<noteq> [] \<and> (\<forall>r\<in>set comb. fst r = None) then Inl AttributeError
      else if \<exists>r\<in>set comb. \<exists>s. (coordinate 0 (fst r) = Some s \<or> coordinate 1 (fst r) = Some s)
                \<and> pyfloat s = None
      then Inl ValueError
      else Inr (map (\<lambda>r. (Option.bind (coordinate 0 (fst r)) pyfloat,
                         Option.bind (coordinate 1 (fst r)) pyfloat, snd r)) comb))"
proof -
  let ?x = "map (\<lambda>r. coordinate 0 (fst r)) comb" and ?y = "map (\<lambda>r. coordinate 1 (fst r)) comb"
  have x: "(\<exists>s. Some s \<in> set ?x \<and> pyfloat s = None)
             \<longleftrightarrow> (\<exists>r\<in>set comb. \<exists>s. coordinate 0 (fst r) = Some s \<and> pyfloat s = None)"
    by (rule ex_image_Some)
  have y: "(\<exists>s. Some s \<in> set ?y \<and> pyfloat s = None)
             \<longleftrightarrow> (\<exists>r\<in>set comb. \<exists>s. coordinate 1 (fst r) = Some s \<and> pyfloat s = None)"
    by (rule ex_image_Some)
  have z: "zip (map (\<lambda>c. Option.bind c pyfloat) ?x)
             (zip (map (\<lambda>c. Option.bind c pyfloat) ?y) (map snd comb))
           = map (\<lambda>r. (Option.bind (coordinate 0 (fst r)) pyfloat,
                         Option.bind (coordinate 1 (fst r)) pyfloat, snd r)) comb"
    using zip_three [of "\<lambda>r. Option.bind (coordinate 0 (fst r)) pyfloat" comb
        "\<lambda>r. Option.bind (coordinate 1 (fst r)) pyfloat" snd]
    by (simp add: comp_def)
  have ax: "astype_float pyfloat ?x =
      (if \<exists>r\<in>set comb. \<exists>s. coordinate 0 (fst r) = Some s \<and> pyfloat s = None then Inl ValueError
       else Inr (map (\<lambda>c. Option.bind c pyfloat) ?x))"
    unfolding astype_float_cases [of pyfloat ?x] x ..
  have ay: "astype_float pyfloat ?y =
      (if \<exists>r\<in>set comb. \<exists>s. coordinate 1 (fst r) = Some s \<and> pyfloat s = None then Inl ValueError
       else Inr (map (\<lambda>c. Option.bind c pyfloat) ?y))"
    unfolding astype_float_cases [of pyfloat ?y] y ..
  show ?thesis
  proof (cases "comb \<noteq> [] \<and> (\<forall>r\<in>set comb. fst r = None)")
    case True
    then show ?thesis by (simp add: finalDf_def list_all_iff)
  next
    case False
    then have d: "finalDf pyfloat comb =
        (case astype_float pyfloat ?x of
           Inl e \<Rightarrow> Inl e
         | Inr xs \<Rightarrow>
             (case astype_float pyfloat ?y of
                Inl e \<Rightarrow> Inl e
              | Inr ys \<Rightarrow> Inr (zip xs (zip ys (map snd comb)))))"
      by (auto simp: finalDf_def list_all_iff)
    show ?thesis
    proof (cases "\<exists>r\<in>set comb. \<exists>s. coordinate 0 (fst r) = Some s \<and> pyfloat s = None")
      case True
      then have "finalDf pyfloat comb = Inl ValueError" unfolding d ax by simp
      then show ?thesis using True False by auto
    next
      case nx: False
      show ?thesis
      proof (cases "\<exists>r\<in>set comb. \<exists>s. coordinate 1 (fst r) = Some s \<and> pyfloat s = None")
        case True
        then have "finalDf pyfloat comb = Inl ValueError" unfolding d ax ay using nx by simp
        then show ?thesis using True False by auto
      next
        case ny: False
        have "finalDf pyfloat comb =
                Inr (zip (map (\<lambda>c. Option.bind c pyfloat) ?x)
                       (zip (map (\<lambda>c. Option.bind c pyfloat) ?y) (map snd comb)))"
          unfolding d ax ay using nx ny by simp
        then have "finalDf pyfloat comb =
                Inr (map (\<lambda>r. (Option.bind (coordinate 0 (fst r)) pyfloat,
                         Option.bind (coordinate 1 (fst r)) pyfloat, snd r)) comb)"
          unfolding z .
        then show ?thesis using nx ny False by auto
      qed
    qed
  qed
qed

lemma finalDf_rows:
  "finalDf pyfloat comb = Inr rows \<Longrightarrow>
     rows = map (\<lambda>r. (Option.bind (coordinate 0 (fst r)) pyfloat,
                      Option.bind (coordinate 1 (fst r)) pyfloat, snd r)) comb"
  by (simp add: finalDf_cases split: if_splits)

lemma finalDf_raises:
  assumes "(l, ty) \<in> set comb"
    and "coordinate 0 l = Some s \<or> coordinate 1 l = Some s" and "pyfloat s = None"
  shows "finalDf pyfloat comb = Inl ValueError"
proof -
  have "l \<noteq> None" using assms(2) by (cases l) (auto simp: coordinate_missing)
  then have "\<not> (\<forall>r\<in>set comb. fst r = None)" using assms(1) by force
  moreover have "\<exists>r\<in>set comb. \<exists>s. (coordinate 0 (fst r) = Some s \<or> coordinate 1 (fst r) = Some s)
                  \<and> pyfloat s = None"
    using assms by force
  ultimately show ?thesis by (simp add: finalDf_cases)
qed

lemma finalDf_succeeds:
  assumes "\<exists>r\<in>set comb. fst r \<noteq> None"
    and "\<forall>r\<in>set comb. \<forall>s. coordinate 0 (fst r) = Some s \<or> coordinate 1 (fst r) = Some s
           \<longrightarrow> pyfloat s \<noteq> None"
  shows "finalDf pyfloat comb =
           Inr (map (\<lambda>r. (Option.bind (coordinate 0 (fst r)) pyfloat,
                          Option.bind (coordinate 1 (fst r)) pyfloat, snd r)) comb)"
proof -
  have "\<not> (\<forall>r\<in>set comb. fst r = None)" using assms(1) by auto
  moreover have "\<not> (\<exists>r\<in>set comb. \<exists>s. (coordinate 0 (fst r) = Some s \<or> coordinate 1 (fst r) = Some s)
                  \<and> pyfloat s = None)"
    using assms(2) by auto
  ultimately show ?thesis by (simp add: finalDf_cases)
qed

lemma combined_types:
  "map snd (combined apartments pubs restaurants schools) =
     replicate (length apartments) ''apartment'' @ replicate (length pubs) ''pub''
       @ replicate (length restaurants) ''restaurant'' @ replicate (length schools) ''school''"
  by (simp add: combined_def withBuildingType_def comp_def map_replicate_const)

text \<open>
  Every decimal numeral is a token that the stripping and the splitting leave intact.
\<close>

lemma is_digit_not_stripped: "is_digit c \<Longrightarrow> c \<notin> set ''POINT ()''"
  by (auto simp: is_digit_def)

lemma unsigned_decimal_chars:
  assumes "unsigned_decimal s = Some v"
  shows "s \<noteq> [] \<and> (\<forall>c\<in>set s. is_digit c \<or> c = CHR ''.'')"
proof -
  let ?ip = "takeWhile is_digit s" and ?rest = "dropWhile is_digit s"
  have ne: "s \<noteq> []" using assms by (auto simp: unsigned_decimal_def)
  have ip: "\<forall>c\<in>set ?ip. is_digit c" by (meson set_takeWhileD)
  have "\<forall>c\<in>set ?rest. is_digit c \<or> c = CHR ''.''"
  proof (cases ?rest)
    case Nil
    then show ?thesis by (metis empty_iff empty_set)
  next
    case (Cons c fp)
    then have "c = CHR ''.'' \<and> list_all is_digit fp"
      using assms by (auto simp: unsigned_decimal_def Let_def split: if_splits)
    then show ?thesis using Cons by (auto simp: list_all_iff)
  qed
  moreover have "set s = set ?ip \<union> set ?rest"
    by (metis set_append takeWhile_dropWhile_id)
  ultimately show ?thesis using ip ne by blast
qed

lemma decimal_float_chars:
  assumes "decimal_float s = Some v"
  shows "s \<noteq> [] \<and> (\<forall>c\<in>set s. is_digit c \<or> c = CHR ''.'' \<or> c = CHR ''-'' \<or> c = CHR ''+'')"
proof (cases s)
  case Nil
  then show ?thesis using assms by (simp add: decimal_float_def)
next
  case (Cons c r)
  show ?thesis
  proof (cases "c = CHR ''-'' \<or> c = CHR ''+''")
    case True
    then obtain w where "unsigned_decimal r = Some w"
      using assms Cons by (auto simp: decimal_float_def)
    then show ?thesis using unsigned_decimal_chars Cons True by auto
  next
    case False
    then have "unsigned_decimal s = Some v"
      using assms Cons by (auto simp: decimal_float_def)
    then show ?thesis using unsigned_decimal_chars by blast
  qed
qed

lemma decimal_float_plain_token: "decimal_float s = Some v \<Longrightarrow> plain_token s"
proof -
  assume a: "decimal_float s = Some v"
  note c = decimal_float_chars [OF a]
  have ok: "\<forall>c\<in>set s. c \<noteq> CHR '' '' \<and> c \<notin> set ''POINT ()''"
  proof
    fix x assume "x \<in> set s"
    then have "is_digit x \<or> x = CHR ''.'' \<or> x = CHR ''-'' \<or> x = CHR ''+''" using c by blast
    then show "x \<noteq> CHR '' '' \<and> x \<notin> set ''POINT ()''"
      by (auto simp: is_digit_def)
  qed
  have "hd s \<in> set s" "last s \<in> set s" using c by simp_all
  then show "plain_token s"
    unfolding plain_token_def using c ok by blast
qed

text \<open>
  C4, as amended. In every combined table the row of a location string depends on that
  string alone: x and y are the floats of its first and second token, and y is missing
  when there is no second token. A string "POINT (x y)" whose two tokens are intact
  under the stripping and the splitting has these two tokens as its first and second; a
  string with a single such token has no second. The table is parsed when it holds a
  string and the float conversion accepts every first and second token; a first or
  second token that the conversion rejects raises \<open>ValueError\<close>. The rows of the combined
  table carry the types apartment, pub, restaurant and school, in that order.
\<close>

theorem building_location_parsing:
  "(finalDf pyfloat comb = Inr rows \<longrightarrow>
      rows = map (\<lambda>r. (Option.bind (coordinate 0 (fst r)) pyfloat,
                       Option.bind (coordinate 1 (fst r)) pyfloat, snd r)) comb)
   \<and> ((\<exists>r\<in>set comb. fst r \<noteq> None)
        \<and> (\<forall>r\<in>set comb. \<forall>s. coordinate 0 (fst r) = Some s \<or> coordinate 1 (fst r) = Some s
              \<longrightarrow> pyfloat s \<noteq> None)
      \<longrightarrow> finalDf pyfloat comb =
            Inr (map (\<lambda>r. (Option.bind (coordinate 0 (fst r)) pyfloat,
                           Option.bind (coordinate 1 (fst r)) pyfloat, snd r)) comb))
   \<and> ((l, ty) \<in> set comb \<and> (coordinate 0 l = Some s \<or> coordinate 1 l = Some s)
        \<and> pyfloat s = None
      \<longrightarrow> finalDf pyfloat comb = Inl ValueError)
   \<and> (plain_token tx \<and> plain_token t
      \<longrightarrow> coordinate 0 (Some (point_wkt tx t)) = Some tx
          \<and> coordinate 1 (Some (point_wkt tx t)) = Some t)
   \<and> (plain_token t
      \<longrightarrow> coordinate 0 (Some (''POINT ('' @ t @ '')'')) = Some t
          \<and> coordinate 1 (Some (''POINT ('' @ t @ '')'')) = None)
   \<and> map snd (combined apartments pubs restaurants schools) =
       replicate (length apartments) ''apartment'' @ replicate (length pubs) ''pub''
         @ replicate (length restaurants) ''restaurant'' @ replicate (length schools) ''school''"
proof -
  have a: "plain_token tx \<and> plain_token t
      \<longrightarrow> coordinate 0 (Some (point_wkt tx t)) = Some tx
          \<and> coordinate 1 (Some (point_wkt tx t)) = Some t"
    using coordinate_point_wkt [of tx t] by simp
  have b: "plain_token t
      \<longrightarrow> coordinate 0 (Some (''POINT ('' @ t @ '')'')) = Some t
          \<and> coordinate 1 (Some (''POINT ('' @ t @ '')'')) = None"
    using coordinate_single [of t] by simp
  show ?thesis
    using finalDf_rows [of pyfloat comb rows] finalDf_succeeds [of comb pyfloat]
      finalDf_raises [of l ty comb s pyfloat] a b
      combined_types [of apartments pubs restaurants schools]
    by blast
qed

theorem building_location_parsing_witness:
  "finalDf decimal_float
       [(Some ''POINT (12.5 7.25)'', ''pub''), (None, ''pub''), (Some ''POINT (7.25)'', ''school'')]
     = Inr [(Some (25 / 2), Some (29 / 4), ''pub''), (None, None, ''pub''),
            (Some (29 / 4), None, ''school'')]
   \<and> finalDf decimal_float [(Some ''POINT (12.5 7.25)'', ''pub''), (Some ''POINT (bad)'', ''pub'')]
       = Inl ValueError
   \<and> coordinate 0 (Some (point_wkt ''12.5'' ''7.25'')) = Some ''12.5''
   \<and> coordinate 1 (Some (point_wkt ''12.5'' ''7.25'')) = Some ''7.25''
   \<and> coordinate 1 (Some (''POINT ('' @ ''7.25'' @ '')'')) = None"
proof -
  let ?good = "[(Some ''POINT (12.5 7.25)'', ''pub''), (None, ''pub''),
                (Some ''POINT (7.25)'', ''school'')] :: location_row list"
  let ?bad = "[(Some ''POINT (12.5 7.25)'', ''pub''), (Some ''POINT (bad)'', ''pub'')]
                :: location_row list"
  have p: "plain_token ''12.5''" "plain_token ''7.25''"
    by (simp_all add: plain_token_def)
  have c: "coordinate 0 (Some ''POINT (12.5 7.25)'') = Some ''12.5''"
    "coordinate 1 (Some ''POINT (12.5 7.25)'') = Some ''7.25''"
    "coordinate 0 (Some ''POINT (7.25)'') = Some ''7.25''"
    "coordinate 1 (Some ''POINT (7.25)'') = None"
    "coordinate 0 (Some ''POINT (bad)'') = Some ''bad''"
    "coordinate 0 None = None" "coordinate 1 None = None"
    by code_simp+
  have f: "decimal_float ''12.5'' = Some (25 / 2)" "decimal_float ''7.25'' = Some (29 / 4)"
    "decimal_float ''bad'' = None"
    by code_simp+
  note good = building_location_parsing [of decimal_float ?good _ _ _ _ "''12.5''" "''7.25''"]
  note bad = building_location_parsing [of decimal_float ?bad _ "Some ''POINT (bad)''" "''pub''"
      "''bad''"]
  have h1: "\<exists>r\<in>set ?good. fst r \<noteq> None" by simp
  have f': "decimal_float ''12.5'' \<noteq> None" "decimal_float ''7.25'' \<noteq> None"
    using f by simp_all
  have h2: "\<forall>r\<in>set ?good. \<forall>s. coordinate 0 (fst r) = Some s \<or> coordinate 1 (fst r) = Some s
              \<longrightarrow> decimal_float s \<noteq> None"
    using c f' by auto
  have "finalDf decimal_float ?good =
          Inr (map (\<lambda>r. (Option.bind (coordinate 0 (fst r)) decimal_float,
                         Option.bind (coordinate 1 (fst r)) decimal_float, snd r)) ?good)"
    using good h1 h2 by blast
  then have g: "finalDf decimal_float ?good
     = Inr [(Some (25 / 2), Some (29 / 4), ''pub''), (None, None, ''pub''),
            (Some (29 / 4), None, ''school'')]"
    using c f by simp
  have "(Some ''POINT (bad)'', ''pub'') \<in> set ?bad" by simp
  then have b: "finalDf decimal_float ?bad = Inl ValueError"
    using bad c(5) f(3) by blast
  have "coordinate 0 (Some (point_wkt ''12.5'' ''7.25'')) = Some ''12.5''
      \<and> coordinate 1 (Some (point_wkt ''12.5'' ''7.25'')) = Some ''7.25''"
    using good p by blast
  moreover have "coordinate 1 (Some (''POINT ('' @ ''7.25'' @ '')'')) = None"
    using good p(2) by blast
  ultimately show ?thesis using g b by blast
qed

text \<open>
  The string "POINT (12.5)" has one token instead of two; it raises nothing, and its
  row has a missing y. The string "POINT (NaN 1)" has two tokens that \<open>float\<close> accepts,
  but the stripping removes the N as well: the token handed to \<open>float\<close> is "aN".
\<close>

theorem single_token_location_counterexample:
  "py_split CHR '' '' (py_strip ''POINT ()'' ''POINT (12.5)'') = [''12.5'']
   \<and> finalDf decimal_float [(Some ''POINT (12.5)'', ''pub'')] = Inr [(Some (25 / 2), None, ''pub'')]
   \<and> coordinate 0 (Some ''POINT (NaN 1)'') = Some ''aN''"
  by code_simp

text \<open>
  Tokens after the second are not read, and a table whose locations are all missing
  stops at the \<open>.str\<close> accessor.
\<close>

lemma three_token_location:
  "finalDf decimal_float [(Some ''POINT (1 2 3)'', ''school'')] = Inr [(Some 1, Some 2, ''school'')]"
  by code_simp

lemma missing_locations:
  "finalDf decimal_float [(None, ''pub''), (None, ''school'')] = Inl AttributeError"
  by code_simp

subsection \<open>Datetime conversion\<close>

lemma to_datetime_cell_result:
  "to_datetime_cell parse c = Some d \<Longrightarrow> is_datetime64 d \<and> is_null d = is_null c"
  by (cases c) (auto simp: to_datetime_cell_def is_datetime64_def is_null_def)

lemma to_datetime_cell_null: "is_null c \<Longrightarrow> to_datetime_cell parse c = Some NaT"
  by (cases c) (auto simp: to_datetime_cell_def is_null_def)

lemma to_datetime_cell_fails:
  "to_datetime_cell parse c = None \<longleftrightarrow> \<not> is_null c \<and> \<not> is_datetime64 c \<and> parse c = None"
  by (cases c) (auto simp: to_datetime_cell_def is_datetime64_def is_null_def)

lemma to_datetime_cells:
  "to_datetime parse vs = Inr ds \<Longrightarrow> map (to_datetime_cell parse) vs = map Some ds"
  by (induction vs arbitrary: ds) (auto split: option.splits sum.splits)

lemma to_datetime_error: "to_datetime parse vs = Inl e \<Longrightarrow> e = ValueError"
  by (induction vs arbitrary: e) (auto split: option.splits sum.splits)

lemma to_datetime_raises:
  "c \<in> set vs \<Longrightarrow> to_datetime_cell parse c = None \<Longrightarrow> to_datetime parse vs = Inl ValueError"
proof (induction vs)
  case Nil
  then show ?case by simp
next
  case (Cons v vs)
  show ?case
  proof (cases "to_datetime_cell parse v")
    case None
    then show ?thesis by simp
  next
    case (Some d)
    then have "c \<in> set vs" using Cons.prems by auto
    then have "to_datetime parse vs = Inl ValueError" using Cons by blast
    then show ?thesis using Some by simp
  qed
qed

lemma to_datetime_mask:
  assumes "to_datetime parse vs = Inr ds"
  shows "map is_null ds = map is_null vs" and "list_all is_datetime64 ds"
proof -
  have m: "map (to_datetime_cell parse) vs = map Some ds"
    using assms by (rule to_datetime_cells)
  then have len: "length vs = length ds" by (metis length_map)
  have each: "\<forall>i<length ds. to_datetime_cell parse (vs ! i) = Some (ds ! i)"
  proof (intro allI impI)
    fix i assume "i < length ds"
    then show "to_datetime_cell parse (vs ! i) = Some (ds ! i)"
      using m len by (metis nth_map)
  qed
  show "map is_null ds = map is_null vs"
    using len each to_datetime_cell_result by (auto simp: list_eq_iff_nth_eq)
  show "list_all is_datetime64 ds"
    using each to_datetime_cell_result by (auto simp: list_all_length)
qed

lemma map_of_setitem:
  "map_of (setitem df col v) c = (if c = col then Some v else map_of df c)"
  by (induction df col v rule: setitem.induct) auto

lemma columns_setitem:
  "map_of df col = Some vs \<Longrightarrow> map fst (setitem df col v) = map fst df"
  by (induction df col v rule: setitem.induct) (auto split: if_splits)

lemma isna_setitem:
  "map_of df col = Some vs \<Longrightarrow> map is_null v = map is_null vs
     \<Longrightarrow> isna (setitem df col v) = isna df"
  by (induction df col v rule: setitem.induct) (auto simp: isna_def split: if_splits)

lemma convertToDatetime_error:
  "convertToDatetime parse df cols = Inl e \<Longrightarrow> e = ValueError"
  by (induction parse df cols rule: convertToDatetime.induct)
     (auto split: option.splits sum.splits dest: to_datetime_error)

lemma convertToDatetime_isna:
  "convertToDatetime parse df cols = Inr df' \<Longrightarrow> isna df' = isna df \<and> map fst df' = map fst df"
proof (induction parse df cols rule: convertToDatetime.induct)
  case (1 parse df)
  then show ?case by simp
next
  case (2 parse df col columns)
  show ?case
  proof (cases "map_of df col")
    case None
    then show ?thesis using 2 by simp
  next
    case (Some vs)
    then obtain ds where ds: "to_datetime parse vs = Inr ds"
      using "2.prems" by (cases "to_datetime parse vs") auto
    then have r: "convertToDatetime parse (setitem df col ds) columns = Inr df'"
      using "2.prems" Some by simp
    have "isna df' = isna (setitem df col ds) \<and> map fst df' = map fst (setitem df col ds)"
      using "2.IH"(2) [OF Some ds r] .
    then show ?thesis
      using isna_setitem [OF Some to_datetime_mask(1) [OF ds]] columns_setitem [OF Some]
      by simp
  qed
qed

lemma convertToDatetime_converted:
  "convertToDatetime parse df cols = Inr df' \<Longrightarrow> col \<in> set cols \<Longrightarrow> map_of df col = Some vs
     \<Longrightarrow> \<exists>ds. map_of df' col = Some ds \<and> list_all is_datetime64 ds"
proof (induction parse df cols arbitrary: vs rule: convertToDatetime.induct)
  case (1 parse df)
  then show ?case by simp
next
  case (2 parse df c columns)
  show ?case
  proof (cases "map_of df c")
    case None
    then have "c \<noteq> col" using "2.prems"(3) by auto
    then show ?thesis using 2 None by simp
  next
    case (Some ws)
    then obtain ds where ds: "to_datetime parse ws = Inr ds"
      using "2.prems"(1) by (cases "to_datetime parse ws") auto
    then have r: "convertToDatetime parse (setitem df c ds) columns = Inr df'"
      using "2.prems"(1) Some by simp
    show ?thesis
    proof (cases "col \<in> set columns")
      case True
      have "map_of (setitem df c ds) col = Some (if col = c then ds else vs)"
        using "2.prems"(3) by (simp add: map_of_setitem)
      then show ?thesis using "2.IH"(2) [OF Some ds r True] by blast
    next
      case False
      then have eq: "col = c" using "2.prems"(2) by simp
      have "\<forall>x. x \<notin> set columns \<longrightarrow>
              (\<forall>t t'. convertToDatetime parse t columns = Inr t' \<longrightarrow> map_of t' x = map_of t x)"
      proof (intro allI impI)
        fix x t t'
        assume "x \<notin> set columns" and "convertToDatetime parse t columns = Inr t'"
        then show "map_of t' x = map_of t x"
          by (induction parse t columns rule: convertToDatetime.induct)
             (auto split: option.splits sum.splits simp: map_of_setitem)
      qed
      then have "map_of df' col = map_of (setitem df c ds) col" using False r by blast
      then show ?thesis using eq to_datetime_mask(2) [OF ds] by (simp add: map_of_setitem)
    qed
  qed
qed

lemma convertToDatetime_raises:
  "col \<in> set cols \<Longrightarrow> map_of df col = Some vs \<Longrightarrow> to_datetime parse vs = Inl e
     \<Longrightarrow> convertToDatetime parse df cols = Inl ValueError"
proof (induction parse df cols rule: convertToDatetime.induct)
  case (1 parse df)
  then show ?case by simp
next
  case (2 parse df c columns)
  show ?case
  proof (cases "c = col")
    case True
    then show ?thesis using "2.prems" to_datetime_error by auto
  next
    case False
    then have mem: "col \<in> set columns" using "2.prems"(1) by simp
    show ?thesis
    proof (cases "map_of df c")
      case None
      then show ?thesis using "2.IH"(1) mem "2.prems" by simp
    next
      case (Some ws)
      show ?thesis
      proof (cases "to_datetime parse ws")
        case (Inl e')
        then show ?thesis using Some to_datetime_error by auto
      next
        case (Inr ds)
        have "map_of (setitem df c ds) col = Some vs"
          using False "2.prems"(2) by (simp add: map_of_setitem)
        then show ?thesis using "2.IH"(2) [OF Some Inr mem _ "2.prems"(3)] Some Inr by simp
      qed
    qed
  qed
qed

subsection \<open>Cache files\<close>

lemma paths_distinct:
  "attributesPath a \<noteq> journalsPath b" "attributesPath a \<noteq> statusLogsPath"
  "attributesPath a \<noteq> kidCountsPath" "journalsPath b \<noteq> statusLogsPath"
  "journalsPath b \<noteq> kidCountsPath" "statusLogsPath \<noteq> kidCountsPath"
proof -
  show "attributesPath a \<noteq> journalsPath b"
  proof
    assume "attributesPath a = journalsPath b"
    then have "rev (attributesPath a) = rev (journalsPath b)" by simp
    then show False by (simp add: attributesPath_def journalsPath_def)
  qed
  show "attributesPath a \<noteq> statusLogsPath"
  proof
    assume "attributesPath a = statusLogsPath"
    then have "rev (attributesPath a) = rev statusLogsPath" by simp
    then show False by (simp add: attributesPath_def statusLogsPath_def)
  qed
  show "attributesPath a \<noteq> kidCountsPath"
  proof
    assume "attributesPath a = kidCountsPath"
    then have "rev (attributesPath a) = rev kidCountsPath" by simp
    then show False by (simp add: attributesPath_def kidCountsPath_def)
  qed
  show "journalsPath b \<noteq> statusLogsPath"
  proof
    assume "journalsPath b = statusLogsPath"
    then have "rev (journalsPath b) = rev statusLogsPath" by simp
    then show False by (simp add: journalsPath_def statusLogsPath_def)
  qed
  show "journalsPath b \<noteq> kidCountsPath"
  proof
    assume "journalsPath b = kidCountsPath"
    then have "rev (journalsPath b) = rev kidCountsPath" by simp
    then show False by (simp add: journalsPath_def kidCountsPath_def)
  qed
  show "statusLogsPath \<noteq> kidCountsPath"
    by (simp add: statusLogsPath_def kidCountsPath_def)
qed

lemma paths_inj: "inj attributesPath" "inj journalsPath"
  by (simp_all add: inj_def attributesPath_def journalsPath_def)

lemma to_pickle_each_other:
  "p \<notin> path ` fst ` set tbls \<Longrightarrow> to_pickle_each path fs tbls p = fs p"
  by (induction path fs tbls rule: to_pickle_each.induct) (auto simp: to_pickle_def)

lemma to_pickle_each_written:
  "inj path \<Longrightarrow> distinct (map fst tbls) \<Longrightarrow> (name, df) \<in> set tbls
     \<Longrightarrow> to_pickle_each path fs tbls (path name) = Some df"
proof (induction path fs tbls rule: to_pickle_each.induct)
  case (1 path fs)
  then show ?case by simp
next
  case (2 path fs n d rest)
  show ?case
  proof (cases "(name, df) \<in> set rest")
    case True
    then show ?thesis using 2 by simp
  next
    case False
    then have eq: "n = name" "d = df" using "2.prems"(3) by auto
    have "path name \<notin> path ` fst ` set rest"
      using "2.prems"(1,2) eq by (auto simp: inj_def)
    then show ?thesis using eq by (simp add: to_pickle_each_other to_pickle_def)
  qed
qed

lemma read_pickle_each_all:
  "\<forall>(name, df)\<in>set tbls. fs (path name) = Some df
     \<Longrightarrow> read_pickle_each path fs (map fst tbls) = Inr tbls"
  by (induction tbls) (auto simp: read_pickle_def)

subsection \<open>The ETL script\<close>

lemma convertTimeColumns_error: "convertTimeColumns parse df = Inl e \<Longrightarrow> e = ValueError"
  by (auto simp: convertTimeColumns_def split: if_splits dest: convertToDatetime_error)

lemma convertTimeColumns_isna:
  "convertTimeColumns parse df = Inr df' \<Longrightarrow> isna df' = isna df \<and> map fst df' = map fst df"
  by (auto simp: convertTimeColumns_def split: if_splits dest: convertToDatetime_isna)

lemma convertTimeColumns_datetime:
  assumes "distinct (map fst df)" and "convertTimeColumns parse df = Inr df'"
    and "(col, ds) \<in> set df'" and "py_in ''time'' (py_lower col)"
  shows "list_all is_datetime64 ds"
proof -
  have names: "map fst df' = map fst df"
    using convertTimeColumns_isna [OF assms(2)] by simp
  have "col \<in> set (map fst df')" using assms(3) by force
  then have c: "col \<in> set (timeColumns df)"
    using assms(4) names by (simp add: timeColumns_def)
  then have r: "convertToDatetime parse df (timeColumns df) = Inr df'"
    using assms(2) by (auto simp: convertTimeColumns_def split: if_splits)
  have "col \<in> fst ` set df" using c by (auto simp: timeColumns_def)
  then obtain vs where "map_of df col = Some vs"
    by (metis domD dom_map_of_conv_image_fst)
  then obtain ds' where d: "map_of df' col = Some ds'" "list_all is_datetime64 ds'"
    using convertToDatetime_converted [OF r c] by blast
  have "distinct (map fst df')" using names assms(1) by simp
  then have "map_of df' col = Some ds" using assms(3) by simp
  then show ?thesis using d by simp
qed

lemma convertTimeColumns_raises:
  assumes "distinct (map fst df)" and "(col, vs) \<in> set df" and "py_in ''time'' (py_lower col)"
    and "c \<in> set vs" and "to_datetime_cell parse c = None"
  shows "convertTimeColumns parse df = Inl ValueError"
proof -
  have m: "map_of df col = Some vs" using assms(1,2) by simp
  have t: "col \<in> set (timeColumns df)"
    using assms(2,3) by (force simp: timeColumns_def)
  have "to_datetime parse vs = Inl ValueError"
    using assms(4,5) by (rule to_datetime_raises)
  then have "convertToDatetime parse df (timeColumns df) = Inl ValueError"
    using convertToDatetime_raises [OF t m] by blast
  then show ?thesis using t by (auto simp: convertTimeColumns_def)
qed

lemma convertEach_error: "convertEach parse tbls = Inl e \<Longrightarrow> e = ValueError"
  by (induction parse tbls rule: convertEach.induct)
     (auto split: sum.splits dest: convertTimeColumns_error)

lemma convertEach_names: "convertEach parse tbls = Inr tbls' \<Longrightarrow> map fst tbls' = map fst tbls"
  by (induction parse tbls arbitrary: tbls' rule: convertEach.induct) (auto split: sum.splits)

lemma convertEach_Cons:
  "convertEach parse (t # rest) = Inr tbls' \<Longrightarrow>
     \<exists>d' rest'. tbls' = (fst t, d') # rest' \<and> convertTimeColumns parse (snd t) = Inr d'
       \<and> convertEach parse rest = Inr rest'"
  by (cases t) (auto split: sum.splits)

lemma convertEach_back:
  "convertEach parse tbls = Inr tbls' \<Longrightarrow> (name, df') \<in> set tbls'
     \<Longrightarrow> \<exists>df. (name, df) \<in> set tbls \<and> convertTimeColumns parse df = Inr df'"
proof (induction tbls arbitrary: tbls')
  case Nil
  then show ?case by simp
next
  case (Cons t rest)
  obtain d' rest' where r: "tbls' = (fst t, d') # rest'"
      "convertTimeColumns parse (snd t) = Inr d'" "convertEach parse rest = Inr rest'"
    using convertEach_Cons [OF Cons.prems(1)] by blast
  show ?case
  proof (cases "(name, df') \<in> set rest'")
    case True
    then show ?thesis using Cons.IH [OF r(3)] by auto
  next
    case False
    then have "name = fst t" "df' = d'" using Cons.prems(2) r(1) by auto
    then have "(name, snd t) \<in> set (t # rest) \<and> convertTimeColumns parse (snd t) = Inr df'"
      using r(2) by simp
    then show ?thesis by blast
  qed
qed

lemma convertEach_forth:
  "convertEach parse tbls = Inr tbls' \<Longrightarrow> (name, df) \<in> set tbls
     \<Longrightarrow> \<exists>df'. (name, df') \<in> set tbls' \<and> convertTimeColumns parse df = Inr df'"
proof (induction tbls arbitrary: tbls')
  case Nil
  then show ?case by simp
next
  case (Cons t rest)
  obtain d' rest' where r: "tbls' = (fst t, d') # rest'"
      "convertTimeColumns parse (snd t) = Inr d'" "convertEach parse rest = Inr rest'"
    using convertEach_Cons [OF Cons.prems(1)] by blast
  show ?case
  proof (cases "(name, df) \<in> set rest")
    case True
    then show ?thesis using Cons.IH [OF r(3)] r(1) by auto
  next
    case False
    then have "t = (name, df)" using Cons.prems(2) by simp
    then have "(name, d') \<in> set tbls' \<and> convertTimeColumns parse df = Inr d'"
      using r(1,2) by simp
    then show ?thesis by blast
  qed
qed

lemma convertEach_raises:
  "(name, df) \<in> set tbls \<Longrightarrow> convertTimeColumns parse df = Inl e
     \<Longrightarrow> convertEach parse tbls = Inl ValueError"
proof (induction parse tbls rule: convertEach.induct)
  case (1 parse)
  then show ?case by simp
next
  case (2 parse n d rest)
  show ?case
  proof (cases "convertTimeColumns parse d")
    case (Inl e')
    then show ?thesis using convertTimeColumns_error [OF Inl] by simp
  next
    case (Inr d')
    then have "(name, df) \<in> set rest" using "2.prems" by auto
    then have "convertEach parse rest = Inl ValueError" using 2 Inr by blast
    then show ?thesis using Inr by simp
  qed
qed

lemma dropna_discarded:
  "dropnaLogs s = s" "dropnaAttributes s = s" "dropnaJournals s = s"
  by (simp_all add: dropnaLogs_def dropnaAttributes_def dropnaJournals_def)

lemma etl_Inr:
  "etl strptime infer s0 = Inr s \<Longrightarrow>
     convertEach infer (attributes s0) = Inr (attributes s)
     \<and> convertEach infer (journals s0) = Inr (journals s)
     \<and> cleanTimestamp strptime (dfParticipantStatusLogs s0) = Inr (dfParticipantStatusLogs s)"
  by (auto simp: etl_def dropna_discarded Let_def split: sum.splits)

lemma cleanTimestamp_raises:
  "map_of logs ''timestamp'' = Some ts \<Longrightarrow> c \<in> set ts
     \<Longrightarrow> to_datetime_cell (strptime timestampFormat) c = None
     \<Longrightarrow> cleanTimestamp strptime logs = Inl ValueError"
  using to_datetime_raises [of c ts "strptime timestampFormat"]
  by (simp add: cleanTimestamp_def)

lemma cleanTimestamp_Inr:
  assumes "cleanTimestamp strptime logs = Inr logs'"
  shows "\<exists>ts ds. map_of logs ''timestamp'' = Some ts \<and> map_of logs' ''timestamp'' = Some ds
       \<and> map (to_datetime_cell (strptime timestampFormat)) ts = map Some ds
       \<and> isna logs' = isna logs \<and> map fst logs' = map fst logs"
proof -
  obtain ts where ts: "map_of logs ''timestamp'' = Some ts"
    using assms by (cases "map_of logs ''timestamp''") (auto simp: cleanTimestamp_def)
  obtain ds where ds: "to_datetime (strptime timestampFormat) ts = Inr ds"
    using assms ts
    by (cases "to_datetime (strptime timestampFormat) ts") (auto simp: cleanTimestamp_def)
  have l: "logs' = setitem logs ''timestamp'' ds"
    using assms ts ds by (simp add: cleanTimestamp_def)
  have "map_of logs' ''timestamp'' = Some ds" by (simp add: l map_of_setitem)
  moreover have "map (to_datetime_cell (strptime timestampFormat)) ts = map Some ds"
    using ds by (rule to_datetime_cells)
  moreover have "isna logs' = isna logs"
    unfolding l using ts to_datetime_mask(1) [OF ds] by (rule isna_setitem)
  moreover have "map fst logs' = map fst logs"
    unfolding l using ts by (rule columns_setitem)
  ultimately show ?thesis using ts by blast
qed

lemma etl_raises_timestamp:
  assumes "map_of (dfParticipantStatusLogs s0) ''timestamp'' = Some ts" and "c \<in> set ts"
    and "to_datetime_cell (strptime timestampFormat) c = None"
  shows "etl strptime infer s0 = Inl ValueError"
proof -
  have t: "cleanTimestamp strptime (dfParticipantStatusLogs s0) = Inl ValueError"
    using assms by (rule cleanTimestamp_raises)
  show ?thesis
  proof (cases "convertEach infer (attributes s0)")
    case (Inl e)
    then show ?thesis using convertEach_error [OF Inl] by (simp add: etl_def dropna_discarded)
  next
    case a: (Inr attrs)
    show ?thesis
    proof (cases "convertEach infer (journals s0)")
      case (Inl e)
      then show ?thesis using a convertEach_error [OF Inl] by (simp add: etl_def dropna_discarded)
    next
      case (Inr js)
      then show ?thesis using a t by (simp add: etl_def dropna_discarded)
    qed
  qed
qed

lemma etl_raises_time_column:
  assumes "(name, df) \<in> set (attributes s0) \<union> set (journals s0)"
    and "convertTimeColumns infer df = Inl e"
  shows "etl strptime infer s0 = Inl ValueError"
proof (cases "convertEach infer (attributes s0)")
  case (Inl e')
  then show ?thesis using convertEach_error [OF Inl] by (simp add: etl_def dropna_discarded)
next
  case a: (Inr attrs)
  have "(name, df) \<notin> set (attributes s0)"
    using convertEach_raises [OF _ assms(2)] a by fastforce
  then have "(name, df) \<in> set (journals s0)" using assms(1) by simp
  then have "convertEach infer (journals s0) = Inl ValueError"
    using convertEach_raises [OF _ assms(2)] by blast
  then show ?thesis using a by (simp add: etl_def dropna_discarded)
qed

lemma exampleState_etl:
  "etl zero_padded_strptime (zero_padded_strptime timestampFormat) exampleState =
     Inr \<lparr>dfParticipantStatusLogs =
        [(''timestamp'', [Timestamp (2022, 3, 1, 0, 0, 0), NaT]),
         (''participantId'', [Num 1, Num 2])],
      attributes =
        [(''Participants.csv'', [(''participantId'', [Num 1, NaN]), (''age'', [Num 25, Num 40])])],
      journals =
        [(''TravelJournal.csv'',
            [(''travelStartTime'', [Timestamp (2022, 3, 1, 8, 5, 0)]), (''purpose'', [NaN])])]\<rparr>"
  by code_simp

subsection \<open>Round trip through the cache\<close>

lemma read_pickle_to_pickle: "read_pickle (to_pickle fs path df) path = Inr df"
  by (simp add: read_pickle_def to_pickle_def)

lemma save_contents:
  assumes "distinct (map fst (attributes s))" and "distinct (map fst (journals s))"
    and "save groupKids s fs = Inr fs'"
  shows "fs' statusLogsPath = Some (dfParticipantStatusLogs s)"
    and "\<forall>(name, df)\<in>set (attributes s). fs' (attributesPath name) = Some df"
    and "\<forall>(name, df)\<in>set (journals s). fs' (journalsPath name) = Some df"
    and "\<exists>participants kids. map_of (attributes s) ''Participants.csv'' = Some participants
           \<and> groupKids participants = Inr kids \<and> fs' kidCountsPath = Some kids"
proof -
  let ?fs1 = "to_pickle fs statusLogsPath (dfParticipantStatusLogs s)"
  let ?fs2 = "to_pickle_each attributesPath ?fs1 (attributes s)"
  let ?fs3 = "to_pickle_each journalsPath ?fs2 (journals s)"
  obtain participants where p: "map_of (attributes s) ''Participants.csv'' = Some participants"
    using assms(3) by (cases "map_of (attributes s) ''Participants.csv''") (auto simp: save_def)
  obtain kids where k: "groupKids participants = Inr kids"
    using assms(3) p by (cases "groupKids participants") (auto simp: save_def)
  have fs': "fs' = to_pickle ?fs3 kidCountsPath kids"
    using assms(3) p k by (simp add: save_def)
  have other: "\<And>q. q \<noteq> kidCountsPath \<Longrightarrow> fs' q = ?fs3 q"
    by (simp add: fs' to_pickle_def)
  have "statusLogsPath \<notin> journalsPath ` fst ` set (journals s)"
    and "statusLogsPath \<notin> attributesPath ` fst ` set (attributes s)"
    using paths_distinct(2,4) by (metis imageE)+
  then have "?fs3 statusLogsPath = ?fs1 statusLogsPath"
    by (simp add: to_pickle_each_other)
  then show "fs' statusLogsPath = Some (dfParticipantStatusLogs s)"
    using other [of statusLogsPath] paths_distinct(6) by (simp add: to_pickle_def)
  show "\<forall>(name, df)\<in>set (attributes s). fs' (attributesPath name) = Some df"
  proof (intro ballI, clarify)
    fix name df assume m: "(name, df) \<in> set (attributes s)"
    have "attributesPath name \<notin> journalsPath ` fst ` set (journals s)"
      using paths_distinct(1) by (metis imageE)
    then have "?fs3 (attributesPath name) = ?fs2 (attributesPath name)"
      by (simp add: to_pickle_each_other)
    also have "\<dots> = Some df"
      using paths_inj(1) assms(1) m by (rule to_pickle_each_written)
    finally show "fs' (attributesPath name) = Some df"
      using other [of "attributesPath name"] paths_distinct(3) by simp
  qed
  show "\<forall>(name, df)\<in>set (journals s). fs' (journalsPath name) = Some df"
  proof (intro ballI, clarify)
    fix name df assume m: "(name, df) \<in> set (journals s)"
    have "?fs3 (journalsPath name) = Some df"
      using paths_inj(2) assms(2) m by (rule to_pickle_each_written)
    then show "fs' (journalsPath name) = Some df"
      using other [of "journalsPath name"] paths_distinct(5) by simp
  qed
  show "\<exists>participants kids. map_of (attributes s) ''Participants.csv'' = Some participants
           \<and> groupKids participants = Inr kids \<and> fs' kidCountsPath = Some kids"
    using p k by (auto simp: fs' to_pickle_def)
qed

text \<open>
  C5. A table written to a cache file and read back is the table that was written, with
  its column order, its cells and their types. After the ETL has saved its tables, the
  dashboard reads back the status log, every attributes table, every journals table and
  the household counts exactly as they were saved: the two stages derive the same file
  names and no write replaces an earlier one.
\<close>

theorem snapshot_round_trip:
  "read_pickle (to_pickle fs path df) path = Inr df
   \<and> (distinct (map fst (attributes s)) \<and> distinct (map fst (journals s))
       \<and> map fst (attributes s) = filter (\<lambda>file. endswith file ''.csv'') attributesDir
       \<and> map fst (journals s) = filter (\<lambda>file. endswith file ''.csv'') journalsDir
       \<and> save groupKids s fs = Inr fs'
      \<longrightarrow> (\<exists>kids. load fs' attributesDir journalsDir =
              Inr \<lparr>loadedStatusLogs = dfParticipantStatusLogs s, loadedAttributes = attributes s,
                   loadedJournals = journals s, loadedKidCounts = kids\<rparr>))"
proof (intro conjI impI)
  show "read_pickle (to_pickle fs path df) path = Inr df"
    by (rule read_pickle_to_pickle)
next
  assume h: "distinct (map fst (attributes s)) \<and> distinct (map fst (journals s))
       \<and> map fst (attributes s) = filter (\<lambda>file. endswith file ''.csv'') attributesDir
       \<and> map fst (journals s) = filter (\<lambda>file. endswith file ''.csv'') journalsDir
       \<and> save groupKids s fs = Inr fs'"
  then have d: "distinct (map fst (attributes s))" "distinct (map fst (journals s))"
    and sv: "save groupKids s fs = Inr fs'" by blast+
  note c = save_contents [OF d sv]
  obtain kids where k: "fs' kidCountsPath = Some kids" using c(4) by blast
  have a: "read_pickle_each attributesPath fs' (filter (\<lambda>file. endswith file ''.csv'') attributesDir)
             = Inr (attributes s)"
    using read_pickle_each_all [of "attributes s" fs' attributesPath] c(2) h by simp
  have j: "read_pickle_each journalsPath fs' (filter (\<lambda>file. endswith file ''.csv'') journalsDir)
             = Inr (journals s)"
    using read_pickle_each_all [of "journals s" fs' journalsPath] c(3) h by simp
  have "load fs' attributesDir journalsDir =
          Inr \<lparr>loadedStatusLogs = dfParticipantStatusLogs s, loadedAttributes = attributes s,
               loadedJournals = journals s, loadedKidCounts = kids\<rparr>"
    using c(1) k a j by (simp add: load_def read_pickle_def)
  then show "\<exists>kids. load fs' attributesDir journalsDir =
              Inr \<lparr>loadedStatusLogs = dfParticipantStatusLogs s, loadedAttributes = attributes s,
                   loadedJournals = journals s, loadedKidCounts = kids\<rparr>"
    by blast
qed

subsection \<open>Timestamps and time columns\<close>

text \<open>
  C7. The status-log timestamp column is parsed with the format %Y-%m-%dT%H:%M:%SZ. A
  number or string in that column that the format rejects makes the ETL stage end with
  \<open>ValueError\<close>, and nothing is written to the cache. When the stage succeeds, the column
  holds the parsed cells. A missing cell is no value to parse: it becomes \<open>NaT\<close>.
\<close>

theorem timestamp_format_errors_propagate:
  "timestampFormat = ''%Y-%m-%dT%H:%M:%SZ''
   \<and> (map_of (dfParticipantStatusLogs s0) ''timestamp'' = Some ts \<and> c \<in> set ts
        \<and> \<not> is_null c \<and> \<not> is_datetime64 c \<and> strptime timestampFormat c = None
      \<longrightarrow> etl strptime infer s0 = Inl ValueError
          \<and> dataFiles strptime infer groupKids s0 fs = Inl ValueError)
   \<and> (etl strptime infer s0 = Inr s
      \<longrightarrow> (\<exists>ts ds. map_of (dfParticipantStatusLogs s0) ''timestamp'' = Some ts
                  \<and> map_of (dfParticipantStatusLogs s) ''timestamp'' = Some ds
                  \<and> map (to_datetime_cell (strptime timestampFormat)) ts = map Some ds))
   \<and> (is_null c \<longrightarrow> to_datetime_cell (strptime timestampFormat) c = Some NaT)"
proof (intro conjI impI)
  show "timestampFormat = ''%Y-%m-%dT%H:%M:%SZ''" by (simp add: timestampFormat_def)
next
  assume h: "map_of (dfParticipantStatusLogs s0) ''timestamp'' = Some ts \<and> c \<in> set ts
        \<and> \<not> is_null c \<and> \<not> is_datetime64 c \<and> strptime timestampFormat c = None"
  then have "to_datetime_cell (strptime timestampFormat) c = None"
    by (simp add: to_datetime_cell_fails)
  then show e: "etl strptime infer s0 = Inl ValueError"
    using h etl_raises_timestamp by blast
  then show "dataFiles strptime infer groupKids s0 fs = Inl ValueError"
    by (simp add: dataFiles_def)
next
  assume "etl strptime infer s0 = Inr s"
  then have "cleanTimestamp strptime (dfParticipantStatusLogs s0) = Inr (dfParticipantStatusLogs s)"
    by (simp add: etl_Inr)
  then show "\<exists>ts ds. map_of (dfParticipantStatusLogs s0) ''timestamp'' = Some ts
                  \<and> map_of (dfParticipantStatusLogs s) ''timestamp'' = Some ds
                  \<and> map (to_datetime_cell (strptime timestampFormat)) ts = map Some ds"
    using cleanTimestamp_Inr by blast
next
  assume "is_null c"
  then show "to_datetime_cell (strptime timestampFormat) c = Some NaT"
    by (rule to_datetime_cell_null)
qed

text \<open>
  C8. With distinct column names in every table (as \<open>read_csv\<close> gives them): when the ETL
  succeeds, every column of every attributes and journals table whose lower-cased name
  contains "time" holds only datetime cells (a datetime or \<open>NaT\<close>); and a number or string
  in such a column that cannot be coerced makes the ETL end with \<open>ValueError\<close>.
\<close>

theorem time_columns_are_datetime:
  "(\<forall>(name, df)\<in>set (attributes s0) \<union> set (journals s0). distinct (map fst df)) \<longrightarrow>
     (etl strptime infer s0 = Inr s \<longrightarrow>
        (\<forall>(name, df)\<in>set (attributes s) \<union> set (journals s).
           \<forall>(col, vs)\<in>set df. py_in ''time'' (py_lower col) \<longrightarrow> list_all is_datetime64 vs))
     \<and> ((name, df) \<in> set (attributes s0) \<union> set (journals s0) \<and> (col, vs) \<in> set df
          \<and> py_in ''time'' (py_lower col) \<and> c \<in> set vs
          \<and> \<not> is_null c \<and> \<not> is_datetime64 c \<and> infer c = None
        \<longrightarrow> etl strptime infer s0 = Inl ValueError
            \<and> dataFiles strptime infer groupKids s0 fs = Inl ValueError)"
proof (intro conjI impI)
  assume d: "\<forall>(name, df)\<in>set (attributes s0) \<union> set (journals s0). distinct (map fst df)"
    and r: "etl strptime infer s0 = Inr s"
  show "\<forall>(name, df)\<in>set (attributes s) \<union> set (journals s).
           \<forall>(col, vs)\<in>set df. py_in ''time'' (py_lower col) \<longrightarrow> list_all is_datetime64 vs"
  proof (intro ballI, clarify)
    fix name df' col vs
    assume m: "(name, df') \<in> set (attributes s) \<union> set (journals s)"
      and cv: "(col, vs) \<in> set df'" and t: "py_in ''time'' (py_lower col)"
    have "\<exists>df. (name, df) \<in> set (attributes s0) \<union> set (journals s0)
            \<and> convertTimeColumns infer df = Inr df'"
      using m etl_Inr [OF r] convertEach_back [of infer _ _ name df'] by blast
    then obtain df where df: "(name, df) \<in> set (attributes s0) \<union> set (journals s0)"
      "convertTimeColumns infer df = Inr df'" by blast
    have "distinct (map fst df)" using d df(1) by blast
    then show "list_all is_datetime64 vs"
      using df(2) cv t by (rule convertTimeColumns_datetime)
  qed
next
  assume d: "\<forall>(name, df)\<in>set (attributes s0) \<union> set (journals s0). distinct (map fst df)"
    and h: "(name, df) \<in> set (attributes s0) \<union> set (journals s0) \<and> (col, vs) \<in> set df
          \<and> py_in ''time'' (py_lower col) \<and> c \<in> set vs
          \<and> \<not> is_null c \<and> \<not> is_datetime64 c \<and> infer c = None"
  have "distinct (map fst df)" using d h by blast
  moreover have "to_datetime_cell infer c = None" using h by (simp add: to_datetime_cell_fails)
  ultimately have "convertTimeColumns infer df = Inl ValueError"
    using h convertTimeColumns_raises by blast
  then show e: "etl strptime infer s0 = Inl ValueError"
    using h etl_raises_time_column by blast
  then show "dataFiles strptime infer groupKids s0 fs = Inl ValueError"
    by (simp add: dataFiles_def)
qed

subsection \<open>Discarded cleaning\<close>

lemma convertEach_isna:
  assumes "convertEach parse tbls = Inr tbls'" and "(name, df) \<in> set tbls"
  shows "\<exists>df'. (name, df') \<in> set tbls' \<and> isna df' = isna df"
  using convertEach_forth [OF assms] convertTimeColumns_isna by blast

text \<open>
  C2. Each of the three cleaning statements leaves the state as it was. When the ETL
  succeeds, every table in the cache has the null mask of the table that was loaded:
  the same cells are missing, so the rows with missing cells are all still there.
\<close>

theorem dropna_result_discarded:
  "dropnaLogs s = s \<and> dropnaAttributes s = s \<and> dropnaJournals s = s
   \<and> (distinct (map fst (attributes s0)) \<and> distinct (map fst (journals s0))
       \<and> dataFiles strptime infer groupKids s0 fs = Inr fs'
      \<longrightarrow> (\<exists>logs. read_pickle fs' statusLogsPath = Inr logs
                 \<and> isna logs = isna (dfParticipantStatusLogs s0))
          \<and> (\<forall>(name, df)\<in>set (attributes s0).
                \<exists>df'. read_pickle fs' (attributesPath name) = Inr df' \<and> isna df' = isna df)
          \<and> (\<forall>(name, df)\<in>set (journals s0).
                \<exists>df'. read_pickle fs' (journalsPath name) = Inr df' \<and> isna df' = isna df))"
proof (intro conjI impI)
  show "dropnaLogs s = s" "dropnaAttributes s = s" "dropnaJournals s = s"
    by (rule dropna_discarded)+
next
  assume h: "distinct (map fst (attributes s0)) \<and> distinct (map fst (journals s0))
       \<and> dataFiles strptime infer groupKids s0 fs = Inr fs'"
  then obtain s1 where e: "etl strptime infer s0 = Inr s1" and sv: "save groupKids s1 fs = Inr fs'"
    by (cases "etl strptime infer s0") (auto simp: dataFiles_def)
  note r = etl_Inr [OF e]
  have d: "distinct (map fst (attributes s1))" "distinct (map fst (journals s1))"
    using h r convertEach_names by metis+
  note c = save_contents [OF d sv]
  have "isna (dfParticipantStatusLogs s1) = isna (dfParticipantStatusLogs s0)"
    using r cleanTimestamp_Inr by blast
  then show "\<exists>logs. read_pickle fs' statusLogsPath = Inr logs
                 \<and> isna logs = isna (dfParticipantStatusLogs s0)"
    using c(1) by (simp add: read_pickle_def)
  show "\<forall>(name, df)\<in>set (attributes s0).
          \<exists>df'. read_pickle fs' (attributesPath name) = Inr df' \<and> isna df' = isna df"
  proof (intro ballI, clarify)
    fix name df assume "(name, df) \<in> set (attributes s0)"
    then obtain df' where "(name, df') \<in> set (attributes s1)" "isna df' = isna df"
      using convertEach_isna r by blast
    then show "\<exists>df'. read_pickle fs' (attributesPath name) = Inr df' \<and> isna df' = isna df"
      using c(2) by (auto simp: read_pickle_def)
  qed
  show "\<forall>(name, df)\<in>set (journals s0).
          \<exists>df'. read_pickle fs' (journalsPath name) = Inr df' \<and> isna df' = isna df"
  proof (intro ballI, clarify)
    fix name df assume "(name, df) \<in> set (journals s0)"
    then obtain df' where "(name, df') \<in> set (journals s1)" "isna df' = isna df"
      using convertEach_isna r by blast
    then show "\<exists>df'. read_pickle fs' (journalsPath name) = Inr df' \<and> isna df' = isna df"
      using c(3) by (auto simp: read_pickle_def)
  qed
qed

lemma exampleState_fields:
  "dfParticipantStatusLogs exampleState =
     [(''timestamp'', [Str ''2022-03-01T00:00:00Z'', NaN]), (''participantId'', [Num 1, Num 2])]"
  "attributes exampleState =
     [(''Participants.csv'', [(''participantId'', [Num 1, NaN]), (''age'', [Num 25, Num 40])])]"
  "journals exampleState =
     [(''TravelJournal.csv'',
         [(''travelStartTime'', [Str ''2022-03-01T08:05:00Z'']), (''purpose'', [NaN])])]"
  by (simp_all add: exampleState_def)

lemma exampleState_saved:
  "map_of (attributes s) ''Participants.csv'' = Some p \<Longrightarrow> \<exists>fs'. save Inr s Map.empty = Inr fs'"
  by (simp add: save_def Let_def)

theorem dropna_result_discarded_witness:
  "dropnaLogs exampleState = exampleState
   \<and> dropna (dfParticipantStatusLogs exampleState) \<noteq> dfParticipantStatusLogs exampleState
   \<and> (\<exists>fs' logs.
        dataFiles zero_padded_strptime (zero_padded_strptime timestampFormat) Inr exampleState Map.empty
          = Inr fs'
        \<and> read_pickle fs' statusLogsPath = Inr logs
        \<and> isna logs = [(''timestamp'', [False, True]), (''participantId'', [False, False])])"
proof -
  let ?p = "zero_padded_strptime"
  obtain s1 where e: "etl ?p (?p timestampFormat) exampleState = Inr s1"
    using exampleState_etl by blast
  have "map fst (attributes s1) = map fst (attributes exampleState)"
    using etl_Inr [OF e] convertEach_names by metis
  then have "''Participants.csv'' \<in> set (map fst (attributes s1))"
    by (simp add: exampleState_fields)
  then have "map_of (attributes s1) ''Participants.csv'' \<noteq> None"
    by (metis map_of_eq_None_iff set_map)
  then obtain fs' where sv: "save Inr s1 Map.empty = Inr fs'"
    using exampleState_saved by blast
  have r: "dataFiles ?p (?p timestampFormat) Inr exampleState Map.empty = Inr fs'"
    using e sv by (simp add: dataFiles_def)
  have d: "distinct (map fst (attributes exampleState)) \<and> distinct (map fst (journals exampleState))"
    by (simp add: exampleState_fields)
  have n: "dropna (dfParticipantStatusLogs exampleState) \<noteq> dfParticipantStatusLogs exampleState"
    unfolding exampleState_fields by code_simp
  have i: "isna (dfParticipantStatusLogs exampleState)
             = [(''timestamp'', [False, True]), (''participantId'', [False, False])]"
    unfolding exampleState_fields by code_simp
  note th = dropna_result_discarded [of exampleState exampleState ?p "?p timestampFormat" Inr Map.empty fs']
  have "dropnaLogs exampleState = exampleState" using th by blast
  moreover have "\<exists>logs. read_pickle fs' statusLogsPath = Inr logs
                   \<and> isna logs = isna (dfParticipantStatusLogs exampleState)"
    using th d r by blast
  ultimately show ?thesis using n r i by metis
qed

theorem snapshot_round_trip_witness:
  "\<exists>fs' kids. save Inr exampleState Map.empty = Inr fs'
     \<and> load fs' [''Participants.csv'', ''notes.txt''] [''TravelJournal.csv''] =
         Inr \<lparr>loadedStatusLogs = dfParticipantStatusLogs exampleState,
              loadedAttributes = attributes exampleState,
              loadedJournals = journals exampleState, loadedKidCounts = kids\<rparr>"
proof -
  have "map_of (attributes exampleState) ''Participants.csv'' \<noteq> None"
    by (simp add: exampleState_fields)
  then obtain fs' where sv: "save Inr exampleState Map.empty = Inr fs'"
    using exampleState_saved by blast
  have d: "distinct (map fst (attributes exampleState))" "distinct (map fst (journals exampleState))"
    by (simp_all add: exampleState_fields)
  have a: "map fst (attributes exampleState)
             = filter (\<lambda>file. endswith file ''.csv'') [''Participants.csv'', ''notes.txt'']"
    unfolding exampleState_fields by code_simp
  have j: "map fst (journals exampleState)
             = filter (\<lambda>file. endswith file ''.csv'') [''TravelJournal.csv'']"
    unfolding exampleState_fields by code_simp
  show ?thesis
    using snapshot_round_trip [of Map.empty "''x''" "[]" exampleState
        "[''Participants.csv'', ''notes.txt'']" "[''TravelJournal.csv'']" Inr fs'] sv d a j
    by blast
qed

theorem timestamp_format_errors_propagate_witness:
  "etl zero_padded_strptime (zero_padded_strptime timestampFormat)
       (exampleState\<lparr>dfParticipantStatusLogs := [(''timestamp'', [Str ''2022-03-01 00:00:00''])]\<rparr>)
     = Inl ValueError
   \<and> (\<exists>s. etl zero_padded_strptime (zero_padded_strptime timestampFormat) exampleState = Inr s
          \<and> map_of (dfParticipantStatusLogs s) ''timestamp''
              = Some [Timestamp (2022, 3, 1, 0, 0, 0), NaT])"
proof -
  let ?p = "zero_padded_strptime"
  let ?bad = "exampleState\<lparr>dfParticipantStatusLogs := [(''timestamp'', [Str ''2022-03-01 00:00:00''])]\<rparr>"
  have m: "map_of (dfParticipantStatusLogs ?bad) ''timestamp'' = Some [Str ''2022-03-01 00:00:00'']"
    by simp
  have c: "\<not> is_null (Str ''2022-03-01 00:00:00'')" "\<not> is_datetime64 (Str ''2022-03-01 00:00:00'')"
    by (simp_all add: is_null_def is_datetime64_def)
  have n: "?p timestampFormat (Str ''2022-03-01 00:00:00'') = None"
    by code_simp
  have bad: "etl ?p (?p timestampFormat) ?bad = Inl ValueError"
    using timestamp_format_errors_propagate [of ?bad "[Str ''2022-03-01 00:00:00'']"
        "Str ''2022-03-01 00:00:00''" ?p "?p timestampFormat" Inr Map.empty] m c n
    by simp
  obtain s where e: "etl ?p (?p timestampFormat) exampleState = Inr s"
    using exampleState_etl by blast
  then obtain ts ds where t: "map_of (dfParticipantStatusLogs exampleState) ''timestamp'' = Some ts"
      "map_of (dfParticipantStatusLogs s) ''timestamp'' = Some ds"
      "map (to_datetime_cell (?p timestampFormat)) ts = map Some ds"
    using timestamp_format_errors_propagate [of exampleState _ _ ?p "?p timestampFormat" _ _ s]
    by blast
  have ts: "ts = [Str ''2022-03-01T00:00:00Z'', NaN]"
    using t(1) by (simp add: exampleState_fields)
  have "map (to_datetime_cell (?p timestampFormat)) [Str ''2022-03-01T00:00:00Z'', NaN]
          = map Some [Timestamp (2022, 3, 1, 0, 0, 0), NaT]"
    by code_simp
  then have "map Some ds = map Some [Timestamp (2022, 3, 1, 0, 0, 0), NaT]"
    using t(3) ts by simp
  then have "ds = [Timestamp (2022, 3, 1, 0, 0, 0), NaT]"
    by (metis list.inj_map_strong option.inject)
  then show ?thesis using bad e t(2) by blast
qed

theorem time_columns_are_datetime_witness:
  "etl zero_padded_strptime (zero_padded_strptime timestampFormat)
       (exampleState\<lparr>journals := [(''TravelJournal.csv'', [(''travelStartTime'', [Str ''soon''])])]\<rparr>)
     = Inl ValueError
   \<and> (\<exists>s. etl zero_padded_strptime (zero_padded_strptime timestampFormat) exampleState = Inr s
          \<and> list_all is_datetime64 [Timestamp (2022, 3, 1, 8, 5, 0)])"
proof -
  let ?p = "zero_padded_strptime"
  let ?bad = "exampleState\<lparr>journals := [(''TravelJournal.csv'', [(''travelStartTime'', [Str ''soon''])])]\<rparr>"
  have d: "\<forall>(name, df)\<in>set (attributes ?bad) \<union> set (journals ?bad). distinct (map fst df)"
    by (simp add: exampleState_fields)
  have m: "(''TravelJournal.csv'', [(''travelStartTime'', [Str ''soon''])])
             \<in> set (attributes ?bad) \<union> set (journals ?bad)"
    by simp
  have t: "py_in ''time'' (py_lower ''travelStartTime'')" by code_simp
  have c: "\<not> is_null (Str ''soon'')" "\<not> is_datetime64 (Str ''soon'')"
    by (simp_all add: is_null_def is_datetime64_def)
  have n: "?p timestampFormat (Str ''soon'') = None" by code_simp
  have bad: "etl ?p (?p timestampFormat) ?bad = Inl ValueError"
    using time_columns_are_datetime [of ?bad ?p "?p timestampFormat" _ "''TravelJournal.csv''"
        "[(''travelStartTime'', [Str ''soon''])]" "''travelStartTime''" "[Str ''soon'']" "Str ''soon''"
        Inr Map.empty] d m t c n
    by simp
  have d0: "\<forall>(name, df)\<in>set (attributes exampleState) \<union> set (journals exampleState).
              distinct (map fst df)"
    by (simp add: exampleState_fields)
  have e: "etl ?p (?p timestampFormat) exampleState =
     Inr \<lparr>dfParticipantStatusLogs =
        [(''timestamp'', [Timestamp (2022, 3, 1, 0, 0, 0), NaT]),
         (''participantId'', [Num 1, Num 2])],
      attributes =
        [(''Participants.csv'', [(''participantId'', [Num 1, NaN]), (''age'', [Num 25, Num 40])])],
      journals =
        [(''TravelJournal.csv'',
            [(''travelStartTime'', [Timestamp (2022, 3, 1, 8, 5, 0)]), (''purpose'', [NaN])])]\<rparr>"
    (is "_ = Inr ?s")
    by (rule exampleState_etl)
  have "\<forall>(name, df)\<in>set (attributes ?s) \<union> set (journals ?s).
           \<forall>(col, vs)\<in>set df. py_in ''time'' (py_lower col) \<longrightarrow> list_all is_datetime64 vs"
    using time_columns_are_datetime [of exampleState ?p "?p timestampFormat" ?s] d0 e by blast
  then have "list_all is_datetime64 [Timestamp (2022, 3, 1, 8, 5, 0)]"
    using t by simp
  then show ?thesis using bad e by blast
qed

end
